theory Spec2Isabelle
  imports Complex_Main
begin

section \<open>AstroSonar: the sweep clock, the crossing detector and the dispatcher\<close>

text \<open>
  A shallow embedding of \<^verbatim>\<open>src/AstroSonar.jsx\<close>. React state cells and \<^verbatim>\<open>useRef\<close> cells are
  the fields of one record that every handler takes and returns; calls into the audio
  engine are appended to a log. The clock, the detector and the transport are modelled
  with JavaScript numbers read as real numbers, computed exactly; the rounding of
  \<^verbatim>\<open>wrapDeg\<close> in double precision is modelled separately, by \<open>wrapDeg_double\<close>.
\<close>

subsection \<open>Helpers\<close>

text \<open>
  The \<^verbatim>\<open>%\<close> operator of JavaScript: the remainder of the division truncated towards
  zero, so the result has the sign of the dividend. (A zero divisor gives NaN in
  JavaScript; the program only divides by 360 and by the length of the scale.)
\<close>

definition js_rem :: "real \<Rightarrow> real \<Rightarrow> real" where
  "js_rem a b = a - b * of_int (if 0 \<le> a / b then \<lfloor>a / b\<rfloor> else \<lceil>a / b\<rceil>)"

definition js_rem_int :: "int \<Rightarrow> int \<Rightarrow> int" where
  "js_rem_int a b = sgn a * (\<bar>a\<bar> mod \<bar>b\<bar>)"

text \<open>
  \<^verbatim>\<open>const wrapDeg = (d) => ((d % 360) + 360) % 360;\<close>, computed exactly.
\<close>

definition wrapDeg :: "real \<Rightarrow> real" where
  "wrapDeg d = js_rem (js_rem d 360 + 360) 360"

text \<open>
  \<^verbatim>\<open>const crossed = (prev, curr, target) => { ... }\<close>: the three arguments are
  reassigned to their wrapped values, then compared.
\<close>

definition crossed :: "real \<Rightarrow> real \<Rightarrow> real \<Rightarrow> bool" where
  "crossed prev cur target =
     (let prev = wrapDeg prev; cur = wrapDeg cur; target = wrapDeg target
      in if prev \<le> cur then prev < target \<and> target \<le> cur
         else target > prev \<or> target \<le> cur)"

subsection \<open>The chart, the scale and the sound library\<close>

text \<open>A chart body; the glyph of the source is presentation only and is left out.\<close>

record planet =
  key :: string
  deg :: real
  instrument :: string

definition PLANETS :: "planet list" where
  "PLANETS =
    [\<lparr>key = ''Sun'', deg = 311.59, instrument = ''lead''\<rparr>,
     \<lparr>key = ''Moon'', deg = 52.1, instrument = ''pad''\<rparr>,
     \<lparr>key = ''Mercury'', deg = 317.52, instrument = ''arp''\<rparr>,
     \<lparr>key = ''Venus'', deg = 358.29, instrument = ''bell''\<rparr>,
     \<lparr>key = ''Mars'', deg = 100.01, instrument = ''snare''\<rparr>,
     \<lparr>key = ''Jupiter'', deg = 194.41, instrument = ''bass''\<rparr>,
     \<lparr>key = ''Saturn'', deg = 319.52, instrument = ''pad''\<rparr>,
     \<lparr>key = ''Uranus'', deg = 289.29, instrument = ''hat''\<rparr>,
     \<lparr>key = ''Neptune'', deg = 289.31, instrument = ''hat''\<rparr>,
     \<lparr>key = ''Pluto'', deg = 235.21, instrument = ''tom''\<rparr>,
     \<lparr>key = ''Lilith'', deg = 351.59, instrument = ''clap''\<rparr>,
     \<lparr>key = ''NNode'', deg = 260.15, instrument = ''bell''\<rparr>,
     \<lparr>key = ''Asc'', deg = 171.45, instrument = ''kick''\<rparr>,
     \<lparr>key = ''MC'', deg = 78.8, instrument = ''lead''\<rparr>]"

text \<open>
  \<^verbatim>\<open>Object.fromEntries(PLANETS.map(p => [p.key, p.instrument]))\<close>: the entries are
  assigned in order, a later one replacing an earlier one with the same key.
\<close>

definition fromEntries :: "('k \<times> 'v) list \<Rightarrow> ('k \<rightharpoonup> 'v)" where
  "fromEntries kvs = fold (\<lambda>(k, v) m. m(k \<mapsto> v)) kvs Map.empty"

definition ORIGINAL_INSTRUMENTS :: "string \<rightharpoonup> string" where
  "ORIGINAL_INSTRUMENTS = fromEntries (map (\<lambda>p. (key p, instrument p)) PLANETS)"

definition SCALE :: "string list" where
  "SCALE =
    [''G3'', ''A3'', ''B3'', ''D4'', ''E4'',
     ''G4'', ''A4'', ''B4'', ''D5'', ''E5'',
     ''G5'', ''A5'', ''B5'', ''D6'', ''E6'']"

text \<open>
  \<^verbatim>\<open>const pick = (i) => SCALE[(i % SCALE.length + SCALE.length) % SCALE.length];\<close>
  The index computed is always within the scale.
\<close>

definition pick :: "int \<Rightarrow> string" where
  "pick i =
     SCALE ! nat (js_rem_int (js_rem_int i (int (length SCALE)) + int (length SCALE))
                    (int (length SCALE)))"

definition SOUND_LIBRARY :: "(string \<times> string) list" where
  "SOUND_LIBRARY =
    [(''kick'', ''Kick (thump)''),
     (''snare'', ''Snare (snap)''),
     (''clap'', ''Clap (cute)''),
     (''hat'', ''Hat (tsss)''),
     (''tom'', ''Tom (boop)''),
     (''bass'', ''Chip Bass''),
     (''lead'', ''Square Lead (pew)''),
     (''arp'', ''Arp (sparkle)''),
     (''pad'', ''Soft Pad''),
     (''bell'', ''Bell (ping)''),
     (''pluck'', ''Pluck (pixie)''),
     (''pulse'', ''Pulse Lead (cute)''),
     (''blip'', ''Blip (game coin)'')]"

subsection \<open>The audio graph\<close>

text \<open>
  A synth node is known by the class \<^verbatim>\<open>makeSynth\<close> constructs for it; the envelope and
  volume tables are voicing parameters that no modelled function reads.
\<close>

datatype synth = MembraneSynth | NoiseSynth | MonoSynth | Synth

definition makeSynth :: "string \<Rightarrow> synth" where
  "makeSynth kind =
     (if kind = ''kick'' then MembraneSynth
      else if kind = ''snare'' then NoiseSynth
      else if kind = ''clap'' then NoiseSynth
      else if kind = ''hat'' then NoiseSynth
      else if kind = ''tom'' then MembraneSynth
      else if kind = ''bass'' then MonoSynth
      else Synth)"

text \<open>
  The slot of a body: \<^verbatim>\<open>{ current, nodes }\<close>. \<^verbatim>\<open>current\<close> is read from a dictionary,
  so it may be undefined (\<open>None\<close>); looking a node up under an undefined name finds
  nothing.
\<close>

record slot =
  current :: "string option"
  nodes :: "string \<rightharpoonup> synth"

text \<open>
  \<^verbatim>\<open>slot.nodes[slot.current]\<close>: the node found, with the name it was found under.
\<close>

definition slot_node :: "slot \<Rightarrow> (string \<times> synth) option" where
  "slot_node s =
     (case current s of
        None \<Rightarrow> None
      | Some c \<Rightarrow> (case nodes s c of None \<Rightarrow> None | Some node \<Rightarrow> Some (c, node)))"

text \<open>
  An effect node with its \<^verbatim>\<open>wet\<close> parameter; the plain \<^verbatim>\<open>Tone.Delay\<close> fallback has
  none. \<^verbatim>\<open>tone\<close> lists which effect classes the imported audio library provides (the
  feature detection \<^verbatim>\<open>Tone?.Distortion\<close> and so on).
\<close>

datatype fxnode = FxNode (wet: "real option")

record tone =
  hasDistortion :: bool
  hasAutoFilter :: bool
  hasFeedbackDelay :: bool
  hasDelay :: bool
  hasReverb :: bool

text \<open>
  One call into the audio engine: a method of the node of a body's voice, with its
  arguments as written in the source (\<open>''t''\<close> is the reading \<^verbatim>\<open>Tone.now()\<close> of the audio
  clock taken by the trigger), or the one-off beep that unlocks the audio output.
\<close>

datatype call =
  NodeCall (body: string) (voice: string) (meth: string) (args: "string list")
  | UnlockBeep

subsection \<open>The state of the component\<close>

record state =
  running :: bool
  bpm :: real
  angle :: real
  distWet :: real
  filtWet :: real
  delWet :: real
  revWet :: real
  baseTimeRef :: "real option"
  baseAngleRef :: real
  prevAngleRef :: real
  builtRef :: bool
  synthsRef :: "string \<rightharpoonup> slot"
  instrumentMap :: "string \<rightharpoonup> string"
  distortionRef :: "fxnode option"
  autoFilterRef :: "fxnode option"
  delayRef :: "fxnode option"
  reverbRef :: "fxnode option"
  scheduled :: "call list"

text \<open>The values of \<^verbatim>\<open>useState\<close> and \<^verbatim>\<open>useRef\<close> at the first render.\<close>

definition init :: state where
  "init =
    \<lparr>running = False, bpm = 60, angle = 0,
     distWet = 0.15, filtWet = 0.10, delWet = 0.18, revWet = 0.12,
     baseTimeRef = None, baseAngleRef = 0, prevAngleRef = 0,
     builtRef = False, synthsRef = Map.empty,
     instrumentMap = fromEntries (map (\<lambda>p. (key p, instrument p)) PLANETS),
     distortionRef = None, autoFilterRef = None, delayRef = None, reverbRef = None,
     scheduled = []\<rparr>"

text \<open>\<^verbatim>\<open>const tempo = useMemo(() => 360 * (bpm / 60), [bpm]);\<close> (degrees per second)\<close>

definition tempo :: "state \<Rightarrow> real" where
  "tempo st = 360 * (bpm st / 60)"

subsection \<open>Building the audio graph\<close>

text \<open>
  \<^verbatim>\<open>buildGraph\<close> is a closure of one render: the four wet levels it reads are those of
  the render that created it (\<open>rs\<close>), while the \<^verbatim>\<open>useRef\<close> cells it reads and writes are
  the current ones (\<open>st\<close>). The helper \<^verbatim>\<open>add(node, ref)\<close> leaves the cell alone when
  the node is absent. The gain nodes and the wiring of the chain carry no state that a
  modelled function reads.
\<close>

definition add :: "fxnode option \<Rightarrow> fxnode option \<Rightarrow> fxnode option" where
  "add node ref = (case node of None \<Rightarrow> ref | Some n \<Rightarrow> Some n)"

definition buildGraph :: "tone \<Rightarrow> state \<Rightarrow> state \<Rightarrow> state" where
  "buildGraph T rs st =
     (if builtRef st then st
      else
        let distortion = (if hasDistortion T then Some (FxNode (Some (distWet rs))) else None);
            autoFilter = (if hasAutoFilter T then Some (FxNode (Some (filtWet rs))) else None);
            feedbackDelay =
              (if hasFeedbackDelay T then Some (FxNode (Some (delWet rs)))
               else if hasDelay T then Some (FxNode None) else None);
            reverb = (if hasReverb T then Some (FxNode (Some (revWet rs))) else None);
            nodes = fold (\<lambda>(k, l) m. m(k \<mapsto> makeSynth k)) SOUND_LIBRARY Map.empty;
            synths =
              fold (\<lambda>p m. m(key p \<mapsto> \<lparr>current = instrumentMap st (key p), nodes = nodes\<rparr>))
                PLANETS Map.empty
        in st\<lparr>distortionRef := add distortion (distortionRef st),
              autoFilterRef := add autoFilter (autoFilterRef st),
              delayRef := add feedbackDelay (delayRef st),
              reverbRef := add reverb (reverbRef st),
              synthsRef := synths,
              builtRef := True\<rparr>)"

subsection \<open>Triggering a body\<close>

text \<open>
  The \<^verbatim>\<open>switch (slot.current)\<close> of \<^verbatim>\<open>triggerPlanet\<close>: the calls made on the node, as
  pairs of method and arguments.
\<close>

definition voice_calls :: "string \<Rightarrow> nat \<Rightarrow> (string \<times> string list) list" where
  "voice_calls c idx =
     (let note = pick (js_rem_int (int idx * 3) (int (length SCALE)))
      in if c = ''kick'' then [(''triggerAttackRelease'', [''G1'', ''8n'', ''t''])]
         else if c = ''snare'' then [(''triggerAttackRelease'', [''16n'', ''t''])]
         else if c = ''clap'' then [(''triggerAttackRelease'', [''16n'', ''t''])]
         else if c = ''hat'' then [(''triggerAttackRelease'', [''32n'', ''t''])]
         else if c = ''tom'' then [(''triggerAttackRelease'', [''D2'', ''16n'', ''t''])]
         else if c = ''bass'' then [(''triggerAttackRelease'', [pick 0, ''8n'', ''t''])]
         else if c = ''lead'' then [(''triggerAttackRelease'', [note, ''8n'', ''t''])]
         else if c = ''arp'' then [(''triggerAttackRelease'', [pick (int idx + 2), ''16n'', ''t''])]
         else if c = ''pad'' then [(''triggerAttackRelease'', [pick (int idx + 4), ''4n'', ''t''])]
         else if c = ''bell'' then [(''triggerAttackRelease'', [pick (int idx + 6), ''8n'', ''t''])]
         else if c = ''pluck'' then
           [(''triggerAttack'', [note, ''t'']), (''triggerRelease'', [''t+8n''])]
         else if c = ''pulse'' then [(''triggerAttackRelease'', [note, ''8n'', ''t''])]
         else if c = ''blip'' then [(''triggerAttackRelease'', [''E6'', ''32n'', ''t''])]
         else [(''triggerAttackRelease'', [note, ''8n'', ''t''])])"

definition triggerPlanet :: "planet \<Rightarrow> nat \<Rightarrow> state \<Rightarrow> state" where
  "triggerPlanet p idx st =
     (case synthsRef st (key p) of
        None \<Rightarrow> st
      | Some slot \<Rightarrow>
          (case slot_node slot of
             None \<Rightarrow> st
           | Some (c, node) \<Rightarrow>
               st\<lparr>scheduled := scheduled st @
                    map (\<lambda>(m, as). NodeCall (key p) c m as) (voice_calls c idx)\<rparr>))"

subsection \<open>The animation frame\<close>

text \<open>\<^verbatim>\<open>xs.forEach((x, idx) => f(x, idx))\<close>, from index \<open>i\<close> on.\<close>

fun forEach :: "('a \<Rightarrow> nat \<Rightarrow> 's \<Rightarrow> 's) \<Rightarrow> 'a list \<Rightarrow> nat \<Rightarrow> 's \<Rightarrow> 's" where
  "forEach f [] i s = s"
| "forEach f (x # xs) i s = forEach f xs (Suc i) (f x i s)"

text \<open>
  The dispatcher of a frame,
  \<^verbatim>\<open>PLANETS.forEach((p, idx) => { if (crossed(prev, curr, p.deg)) triggerPlanet(p, idx); })\<close>,
  with the chart and the trigger as parameters; the frame passes \<open>PLANETS\<close> and
  \<open>triggerPlanet\<close>.
\<close>

definition dispatch ::
  "(planet \<Rightarrow> nat \<Rightarrow> 's \<Rightarrow> 's) \<Rightarrow> planet list \<Rightarrow> real \<Rightarrow> real \<Rightarrow> 's \<Rightarrow> 's" where
  "dispatch trig ps prev cur s =
     forEach (\<lambda>p idx s. if crossed prev cur (deg p) then trig p idx s else s) ps 0 s"

text \<open>
  One run of the frame callback \<^verbatim>\<open>loop(ts)\<close>, \<open>ts\<close> in milliseconds. The tempo is the
  one of the latest render: the effect that owns the callback is re-run whenever
  \<^verbatim>\<open>running\<close> or \<^verbatim>\<open>tempo\<close> changes.
\<close>

definition loop :: "real \<Rightarrow> state \<Rightarrow> state" where
  "loop ts st =
     (let secs = ts / 1000;
          base = (case baseTimeRef st of None \<Rightarrow> secs | Some b \<Rightarrow> b);
          st1 = st\<lparr>baseTimeRef := Some base\<rparr>;
          cur = wrapDeg (baseAngleRef st1 + (secs - base) * tempo st1);
          prev = prevAngleRef st1;
          st2 = (if builtRef st1 then dispatch triggerPlanet PLANETS prev cur st1 else st1)
      in st2\<lparr>prevAngleRef := cur, angle := cur\<rparr>)"

subsection \<open>The transport\<close>

text \<open>
  \<^verbatim>\<open>handlePlayPause\<close>: the part after \<^verbatim>\<open>await Tone.start()\<close> is taken to run with
  the click.
\<close>

definition handlePlayPause :: "tone \<Rightarrow> state \<Rightarrow> state" where
  "handlePlayPause T st =
     (if \<not> running st then
        let st1 = buildGraph T st st;
            st2 = st1\<lparr>scheduled := scheduled st1 @ [UnlockBeep]\<rparr>;
            st3 = st2\<lparr>baseTimeRef := None\<rparr>;
            st4 = st3\<lparr>prevAngleRef := baseAngleRef st3\<rparr>
        in st4\<lparr>running := True\<rparr>
      else
        (st\<lparr>baseAngleRef := angle st\<rparr>)\<lparr>running := False\<rparr>)"

text \<open>
  \<^verbatim>\<open>if (ref.current?.wet) ref.current.wet.value = v;\<close>
\<close>

definition set_wet :: "real \<Rightarrow> fxnode option \<Rightarrow> fxnode option" where
  "set_wet v ref =
     (case ref of
        None \<Rightarrow> None
      | Some (FxNode None) \<Rightarrow> Some (FxNode None)
      | Some (FxNode (Some w)) \<Rightarrow> Some (FxNode (Some v)))"

text \<open>
  \<^verbatim>\<open>reset\<close>. \<^verbatim>\<open>running\<close> and the closure \<^verbatim>\<open>buildGraph\<close> are those of the render in
  which the handler was created, that is of the state \<open>st\<close> the handler starts in.
\<close>

definition reset :: "tone \<Rightarrow> state \<Rightarrow> state" where
  "reset T st =
     (let st1 = st\<lparr>baseAngleRef := 0, prevAngleRef := 0, angle := 0, bpm := 60\<rparr>;
          st2 = st1\<lparr>instrumentMap := ORIGINAL_INSTRUMENTS,
                    synthsRef := (\<lambda>k. case synthsRef st1 k of
                                         None \<Rightarrow> None
                                       | Some sl \<Rightarrow> Some (sl\<lparr>current := ORIGINAL_INSTRUMENTS k\<rparr>))\<rparr>;
          st3 = st2\<lparr>distWet := 0.15, filtWet := 0.10, delWet := 0.18, revWet := 0.12,
                    distortionRef := set_wet 0.15 (distortionRef st2),
                    autoFilterRef := set_wet 0.10 (autoFilterRef st2),
                    delayRef := set_wet 0.18 (delayRef st2),
                    reverbRef := set_wet 0.12 (reverbRef st2)\<rparr>;
          st4 = (if \<not> builtRef st3 then buildGraph T st st3 else st3)
      in if running st
         then (st4\<lparr>baseTimeRef := None\<rparr>)\<lparr>prevAngleRef := baseAngleRef st4\<rparr>
         else st4)"

subsection \<open>Events\<close>

text \<open>
  What can happen to the mounted component: a frame of the animation clock, a click on
  Play/Pause or Reset, a move of the tempo slider or of one of the four effect sliders.
  The frame callback is only scheduled while \<^verbatim>\<open>running\<close> holds (the effect cancels the
  pending request when it is cleared), so a frame leaves a stopped component alone.
\<close>

datatype event =
  Frame real
  | PlayPause
  | Reset
  | SetBpm real
  | SetDistWet real
  | SetFiltWet real
  | SetDelWet real
  | SetRevWet real

definition step :: "tone \<Rightarrow> event \<Rightarrow> state \<Rightarrow> state" where
  "step T ev st =
     (case ev of
        Frame ts \<Rightarrow> (if running st then loop ts st else st)
      | PlayPause \<Rightarrow> handlePlayPause T st
      | Reset \<Rightarrow> reset T st
      | SetBpm v \<Rightarrow> st\<lparr>bpm := v\<rparr>
      | SetDistWet v \<Rightarrow> st\<lparr>distWet := v, distortionRef := set_wet v (distortionRef st)\<rparr>
      | SetFiltWet v \<Rightarrow> st\<lparr>filtWet := v, autoFilterRef := set_wet v (autoFilterRef st)\<rparr>
      | SetDelWet v \<Rightarrow> st\<lparr>delWet := v, delayRef := set_wet v (delayRef st)\<rparr>
      | SetRevWet v \<Rightarrow> st\<lparr>revWet := v, reverbRef := set_wet v (reverbRef st)\<rparr>)"

text \<open>The state after a sequence of events, the first of the list first.\<close>

fun run :: "tone \<Rightarrow> event list \<Rightarrow> state \<Rightarrow> state" where
  "run T [] st = st"
| "run T (ev # evs) st = run T evs (step T ev st)"

subsection \<open>Definitions used to state the properties\<close>

text \<open>
  The audio library as the application imports it: Tone.js provides all five effect
  classes.
\<close>

definition tone_full :: tone where
  "tone_full =
    \<lparr>hasDistortion = True, hasAutoFilter = True, hasFeedbackDelay = True,
     hasDelay = True, hasReverb = True\<rparr>"








text \<open>
  The audio capability for a body is absent: there is no slot under its key, or the slot
  has no node for the instrument currently selected.
\<close>

definition voiceless :: "state \<Rightarrow> planet \<Rightarrow> bool" where
  "voiceless st p =
     (case synthsRef st (key p) of None \<Rightarrow> True | Some sl \<Rightarrow> slot_node sl = None)"

text \<open>
  The bodies of a chart that a step from \<open>prev\<close> to \<open>cur\<close> crosses, each with its index,
  in the order of the chart; and a trigger that only records its invocation.
\<close>

definition crossings :: "planet list \<Rightarrow> real \<Rightarrow> real \<Rightarrow> (planet \<times> nat) list" where
  "crossings ps prev cur =
     filter (\<lambda>(p, idx). crossed prev cur (deg p)) (zip ps [0 ..< length ps])"

definition log_trigger :: "planet \<Rightarrow> nat \<Rightarrow> (planet \<times> nat) list \<Rightarrow> (planet \<times> nat) list" where
  "log_trigger p idx calls = calls @ [(p, idx)]"

section \<open>Properties\<close>

subsection \<open>Normalisation of angles\<close>

lemma wrapDeg_floor: "wrapDeg x = x - 360 * of_int \<lfloor>x / 360\<rfloor>"
proof (cases "0 \<le> x")
  case True
  define k where "k = \<lfloor>x / 360\<rfloor>"
  define r where "r = x - 360 * of_int k"
  have r: "0 \<le> r" "r < 360"
    unfolding r_def k_def by linarith+
  have r1: "js_rem x 360 = r"
    using True by (simp add: js_rem_def r_def k_def)
  have "\<lfloor>(r + 360) / 360\<rfloor> = 1"
    by (rule floor_unique) (use r in simp_all)
  then have "js_rem (r + 360) 360 = r"
    using r by (simp add: js_rem_def)
  then show ?thesis
    by (simp add: wrapDeg_def r1 r_def k_def)
next
  case False
  define k where "k = \<lceil>x / 360\<rceil>"
  define r where "r = x - 360 * of_int k"
  have r: "- 360 < r" "r \<le> 0"
    unfolding r_def k_def by linarith+
  have r1: "js_rem x 360 = r"
    using False by (simp add: js_rem_def r_def k_def)
  show ?thesis
  proof (cases "r = 0")
    case True
    then have x: "x / 360 = of_int k" by (simp add: r_def)
    have "js_rem (r + 360) 360 = 0"
      using True by (simp add: js_rem_def)
    then have lhs: "wrapDeg x = 0"
      unfolding wrapDeg_def r1 .
    have "x - 360 * of_int \<lfloor>x / 360\<rfloor> = r"
      unfolding x r_def by simp
    then show ?thesis
      using True lhs by simp
  next
    case nz: False
    have f0: "\<lfloor>(r + 360) / 360\<rfloor> = 0"
      by (rule floor_unique) (use r nz in simp_all)
    have "js_rem (r + 360) 360 = r + 360"
      using r f0 by (simp add: js_rem_def)
    moreover have "\<lfloor>x / 360\<rfloor> = k - 1"
      using r nz unfolding r_def by linarith
    ultimately show ?thesis
      by (simp add: wrapDeg_def r1 r_def)
  qed
qed

lemma wrapDeg_range: "0 \<le> wrapDeg x \<and> wrapDeg x < 360"
  unfolding wrapDeg_floor by linarith

lemma wrapDeg_period: "wrapDeg (x + 360 * of_int k) = wrapDeg x"
proof -
  have "\<lfloor>(x + 360 * of_int k) / 360\<rfloor> = \<lfloor>x / 360\<rfloor> + k"
    by (simp add: add_divide_distrib)
  then show ?thesis
    by (simp add: wrapDeg_floor algebra_simps)
qed

lemma wrapDeg_id: "0 \<le> x \<Longrightarrow> x < 360 \<Longrightarrow> wrapDeg x = x"
proof -
  assume "0 \<le> x" "x < 360"
  then have "\<lfloor>x / 360\<rfloor> = 0" by linarith
  then show ?thesis by (simp add: wrapDeg_floor)
qed

lemma wrapDeg_shift: "0 \<le> y \<Longrightarrow> y < 360 \<Longrightarrow> x = y + 360 * of_int k \<Longrightarrow> wrapDeg x = y"
  using wrapDeg_period [of y k] wrapDeg_id [of y] by simp

subsection \<open>The crossing detector\<close>

lemma crossed_normal:
  "crossed prev cur target =
     (if wrapDeg prev \<le> wrapDeg cur
      then wrapDeg prev < wrapDeg target \<and> wrapDeg target \<le> wrapDeg cur
      else wrapDeg target > wrapDeg prev \<or> wrapDeg target \<le> wrapDeg cur)"
  by (simp add: crossed_def Let_def)

lemma wrapDeg_diff: "wrapDeg (a - b) = wrapDeg (wrapDeg a - wrapDeg b)"
proof -
  have "a - b = (wrapDeg a - wrapDeg b) + 360 * of_int (\<lfloor>a / 360\<rfloor> - \<lfloor>b / 360\<rfloor>)"
    by (simp add: wrapDeg_floor algebra_simps)
  then show ?thesis
    using wrapDeg_period [of "wrapDeg a - wrapDeg b" "\<lfloor>a / 360\<rfloor> - \<lfloor>b / 360\<rfloor>"] by simp
qed

lemma wrapDeg_diff_cases:
  assumes "0 \<le> a" "a < 360" "0 \<le> b" "b < 360"
  shows "wrapDeg (a - b) = (if b \<le> a then a - b else a - b + 360)"
proof (cases "b \<le> a")
  case True
  then show ?thesis using assms by (simp add: wrapDeg_id)
next
  case False
  have "wrapDeg (a - b) = a - b + 360"
    by (rule wrapDeg_shift [where k = "-1"]) (use assms False in simp_all)
  then show ?thesis using False by simp
qed

lemma crossed_offset:
  "crossed prev cur target =
     (0 < wrapDeg (target - prev) \<and> wrapDeg (target - prev) \<le> wrapDeg (cur - prev))"
proof -
  define p c t where "p = wrapDeg prev" and "c = wrapDeg cur" and "t = wrapDeg target"
  have b: "0 \<le> p" "p < 360" "0 \<le> c" "c < 360" "0 \<le> t" "t < 360"
    unfolding p_def c_def t_def using wrapDeg_range by simp_all
  have tp: "wrapDeg (target - prev) = (if p \<le> t then t - p else t - p + 360)"
    unfolding wrapDeg_diff [of target prev] p_def [symmetric] t_def [symmetric]
    by (rule wrapDeg_diff_cases) (use b in simp_all)
  have cp: "wrapDeg (cur - prev) = (if p \<le> c then c - p else c - p + 360)"
    unfolding wrapDeg_diff [of cur prev] p_def [symmetric] c_def [symmetric]
    by (rule wrapDeg_diff_cases) (use b in simp_all)
  show ?thesis
    unfolding crossed_normal tp cp p_def [symmetric] c_def [symmetric] t_def [symmetric]
    using b by auto
qed

lemma wrapDeg_10: "wrapDeg 10 = 10" by (rule wrapDeg_id) simp_all
lemma wrapDeg_15: "wrapDeg 15 = 15" by (rule wrapDeg_id) simp_all
lemma wrapDeg_20: "wrapDeg 20 = 20" by (rule wrapDeg_id) simp_all
lemma wrapDeg_5: "wrapDeg 5 = 5" by (rule wrapDeg_id) simp_all
lemma wrapDeg_350: "wrapDeg 350 = 350" by (rule wrapDeg_id) simp_all
lemma wrapDeg_355: "wrapDeg 355 = 355" by (rule wrapDeg_id) simp_all

lemmas wrapDeg_examples = wrapDeg_5 wrapDeg_10 wrapDeg_15 wrapDeg_20 wrapDeg_350 wrapDeg_355

text \<open>
  Claim C1. With the three arguments normalised by \<^verbatim>\<open>wrapDeg\<close>, \<open>crossed prev cur target\<close>
  holds exactly when the target lies in the clockwise interval from \<open>prev\<close> (excluded) to
  \<open>cur\<close> (included): \<open>prev < target \<le> cur\<close> when \<open>prev \<le> cur\<close>, and \<open>target > prev\<close> or
  \<open>target \<le> cur\<close>, the union of \<open>(prev, 360)\<close> and \<open>[0, cur]\<close>, when \<open>prev > cur\<close>.
  Equivalently the clockwise offset of the target from \<open>prev\<close> is positive and at most that
  of \<open>cur\<close>. A step with \<open>prev = cur\<close> crosses nothing, and the six examples of the
  specification evaluate as it says.
\<close>

theorem crossed_clockwise_interval:
  "(wrapDeg prev \<le> wrapDeg cur \<longrightarrow>
      crossed prev cur target = (wrapDeg target \<in> {wrapDeg prev <.. wrapDeg cur}))
   \<and> (wrapDeg prev > wrapDeg cur \<longrightarrow>
      crossed prev cur target =
        (wrapDeg target \<in> {wrapDeg prev <..< 360} \<union> {0 .. wrapDeg cur}))
   \<and> (wrapDeg prev > wrapDeg cur \<longrightarrow>
      crossed prev cur target =
        (wrapDeg target > wrapDeg prev \<or> wrapDeg target \<le> wrapDeg cur))
   \<and> crossed prev cur target =
        (0 < wrapDeg (target - prev) \<and> wrapDeg (target - prev) \<le> wrapDeg (cur - prev))
   \<and> (wrapDeg prev = wrapDeg cur \<longrightarrow> \<not> crossed prev cur target)
   \<and> crossed 10 20 15 \<and> crossed 10 20 20 \<and> crossed 350 10 5 \<and> crossed 350 10 355
   \<and> \<not> crossed 10 20 10 \<and> \<not> crossed 350 10 20"
proof -
  have r: "0 \<le> wrapDeg target" "wrapDeg target < 360"
    using wrapDeg_range [of target] by simp_all
  have 1: "wrapDeg prev \<le> wrapDeg cur \<longrightarrow>
      crossed prev cur target = (wrapDeg target \<in> {wrapDeg prev <.. wrapDeg cur})"
    by (simp add: crossed_normal)
  have 2: "wrapDeg prev > wrapDeg cur \<longrightarrow>
      crossed prev cur target =
        (wrapDeg target \<in> {wrapDeg prev <..< 360} \<union> {0 .. wrapDeg cur})"
    using r by (auto simp: crossed_normal)
  have 3: "wrapDeg prev > wrapDeg cur \<longrightarrow>
      crossed prev cur target =
        (wrapDeg target > wrapDeg prev \<or> wrapDeg target \<le> wrapDeg cur)"
    by (simp add: crossed_normal)
  have 4: "wrapDeg prev = wrapDeg cur \<longrightarrow> \<not> crossed prev cur target"
    by (simp add: crossed_normal)
  have 5: "crossed 10 20 15 \<and> crossed 10 20 20 \<and> crossed 350 10 5 \<and> crossed 350 10 355
     \<and> \<not> crossed 10 20 10 \<and> \<not> crossed 350 10 20"
    by (simp add: crossed_normal wrapDeg_examples)
  show ?thesis
    using 1 2 3 4 5 crossed_offset [of prev cur target] by blast
qed

theorem crossed_clockwise_interval_witness:
  "wrapDeg 10 \<le> wrapDeg 20 \<and> crossed 10 20 15 = (wrapDeg 15 \<in> {wrapDeg 10 <.. wrapDeg 20})
   \<and> wrapDeg 350 > wrapDeg 10
   \<and> crossed 350 10 5 = (wrapDeg 5 \<in> {wrapDeg 350 <..< 360} \<union> {0 .. wrapDeg 10})
   \<and> crossed 350 10 5 = (wrapDeg 5 > wrapDeg 350 \<or> wrapDeg 5 \<le> wrapDeg 10)
   \<and> wrapDeg 10 = wrapDeg (370::real) \<and> \<not> crossed 10 370 15"
proof -
  have a: "wrapDeg 10 \<le> wrapDeg 20" by (simp add: wrapDeg_examples)
  have b: "wrapDeg 350 > wrapDeg 10" by (simp add: wrapDeg_examples)
  have c: "wrapDeg 10 = wrapDeg (370::real)"
    using wrapDeg_period [of 10 1] by simp
  show ?thesis
    using a b c crossed_clockwise_interval [of 10 20 15] crossed_clockwise_interval [of 350 10 5]
      crossed_clockwise_interval [of 10 370 15]
    by blast
qed

subsection \<open>What each operation leaves alone\<close>

lemma triggerPlanet_frame: "\<exists>l. triggerPlanet p idx st = st\<lparr>scheduled := l\<rparr>"
proof (cases "synthsRef st (key p)")
  case None
  then have "triggerPlanet p idx st = st\<lparr>scheduled := scheduled st\<rparr>"
    by (simp add: triggerPlanet_def)
  then show ?thesis ..
next
  case (Some sl)
  show ?thesis
  proof (cases "slot_node sl")
    case None
    with Some have "triggerPlanet p idx st = st\<lparr>scheduled := scheduled st\<rparr>"
      by (simp add: triggerPlanet_def)
    then show ?thesis ..
  next
    case (Some cn)
    with \<open>synthsRef st (key p) = Some sl\<close> show ?thesis
      by (cases cn) (auto simp: triggerPlanet_def)
  qed
qed

lemma forEach_frame:
  assumes "\<And>x i s. \<exists>l. f x i s = s\<lparr>scheduled := l\<rparr>"
  shows "\<exists>l. forEach f xs i (st::state) = st\<lparr>scheduled := l\<rparr>"
proof (induction xs arbitrary: i st)
  case Nil
  have "forEach f [] i st = st\<lparr>scheduled := scheduled st\<rparr>" by simp
  then show ?case ..
next
  case (Cons x xs)
  obtain l1 where l1: "f x i st = st\<lparr>scheduled := l1\<rparr>"
    using assms by blast
  obtain l2 where l2: "forEach f xs (Suc i) (f x i st) = (f x i st)\<lparr>scheduled := l2\<rparr>"
    using Cons.IH by blast
  have "forEach f (x # xs) i st = st\<lparr>scheduled := l2\<rparr>"
    by (simp add: l2) (simp add: l1)
  then show ?case ..
qed

lemma dispatch_frame: "\<exists>l. dispatch triggerPlanet ps prev cur st = st\<lparr>scheduled := l\<rparr>"
  unfolding dispatch_def
proof (rule forEach_frame)
  fix x :: planet and i and s :: state
  show "\<exists>l. (if crossed prev cur (deg x) then triggerPlanet x i s else s) = s\<lparr>scheduled := l\<rparr>"
  proof (cases "crossed prev cur (deg x)")
    case True
    then show ?thesis using triggerPlanet_frame [of x i s] by simp
  next
    case False
    then have "(if crossed prev cur (deg x) then triggerPlanet x i s else s) = s\<lparr>scheduled := scheduled s\<rparr>"
      by simp
    then show ?thesis ..
  qed
qed


lemma loop_frame:
  "\<exists>l. loop ts st =
     st\<lparr>baseTimeRef := Some (case baseTimeRef st of None \<Rightarrow> ts / 1000 | Some b \<Rightarrow> b),
        scheduled := l,
        prevAngleRef := wrapDeg (baseAngleRef st +
          (ts / 1000 - (case baseTimeRef st of None \<Rightarrow> ts / 1000 | Some b \<Rightarrow> b)) * tempo st),
        angle := wrapDeg (baseAngleRef st +
          (ts / 1000 - (case baseTimeRef st of None \<Rightarrow> ts / 1000 | Some b \<Rightarrow> b)) * tempo st)\<rparr>"
proof -
  define base where "base = (case baseTimeRef st of None \<Rightarrow> ts / 1000 | Some b \<Rightarrow> b)"
  define st1 where "st1 = st\<lparr>baseTimeRef := Some base\<rparr>"
  define cur where "cur = wrapDeg (baseAngleRef st + (ts / 1000 - base) * tempo st)"
  obtain l where l: "dispatch triggerPlanet PLANETS (prevAngleRef st1) cur st1 = st1\<lparr>scheduled := l\<rparr>"
    using dispatch_frame by blast
  have t: "tempo st1 = tempo st" "baseAngleRef st1 = baseAngleRef st"
    by (simp_all add: st1_def tempo_def)
  have eq: "loop ts st =
    (if builtRef st1 then dispatch triggerPlanet PLANETS (prevAngleRef st1) cur st1 else st1)
      \<lparr>prevAngleRef := cur, angle := cur\<rparr>"
    unfolding loop_def Let_def base_def [symmetric] st1_def [symmetric] t cur_def [symmetric] ..
  show ?thesis
  proof (cases "builtRef st1")
    case True
    then have "loop ts st = st\<lparr>baseTimeRef := Some base, scheduled := l,
        prevAngleRef := cur, angle := cur\<rparr>"
      unfolding eq l by (simp add: st1_def)
    then show ?thesis unfolding base_def cur_def ..
  next
    case False
    then have "loop ts st = st\<lparr>baseTimeRef := Some base, scheduled := scheduled st,
        prevAngleRef := cur, angle := cur\<rparr>"
      unfolding eq by (simp add: st1_def)
    then show ?thesis unfolding base_def cur_def ..
  qed
qed

lemma loop_clock:
  "baseTimeRef (loop ts st) = Some (case baseTimeRef st of None \<Rightarrow> ts / 1000 | Some b \<Rightarrow> b)"
  "angle (loop ts st) = wrapDeg (baseAngleRef st +
          (ts / 1000 - (case baseTimeRef st of None \<Rightarrow> ts / 1000 | Some b \<Rightarrow> b)) * tempo st)"
  "prevAngleRef (loop ts st) = angle (loop ts st)"
  "baseAngleRef (loop ts st) = baseAngleRef st"
  "bpm (loop ts st) = bpm st"
  "running (loop ts st) = running st"
  "builtRef (loop ts st) = builtRef st"
  using loop_frame [of ts st] by (auto simp: tempo_def)


lemma buildGraph_frame:
  "\<exists>d f l r sy. buildGraph T rs st =
     st\<lparr>distortionRef := d, autoFilterRef := f, delayRef := l, reverbRef := r,
        synthsRef := sy, builtRef := True\<rparr>"
proof (cases "builtRef st")
  case True
  then have "buildGraph T rs st =
     st\<lparr>distortionRef := distortionRef st, autoFilterRef := autoFilterRef st,
        delayRef := delayRef st, reverbRef := reverbRef st,
        synthsRef := synthsRef st, builtRef := True\<rparr>"
    by (simp add: buildGraph_def)
  then show ?thesis by blast
next
  case False
  then show ?thesis
    unfolding buildGraph_def Let_def by (simp only: if_False) blast
qed

lemma buildGraph_clock:
  "running (buildGraph T rs st) = running st"
  "bpm (buildGraph T rs st) = bpm st"
  "angle (buildGraph T rs st) = angle st"
  "baseTimeRef (buildGraph T rs st) = baseTimeRef st"
  "baseAngleRef (buildGraph T rs st) = baseAngleRef st"
  "prevAngleRef (buildGraph T rs st) = prevAngleRef st"
  "scheduled (buildGraph T rs st) = scheduled st"
  "instrumentMap (buildGraph T rs st) = instrumentMap st"
  "distWet (buildGraph T rs st) = distWet st"
  "filtWet (buildGraph T rs st) = filtWet st"
  "delWet (buildGraph T rs st) = delWet st"
  "revWet (buildGraph T rs st) = revWet st"
  "builtRef (buildGraph T rs st)"
  using buildGraph_frame [of T rs st] by auto

lemma play_clock:
  assumes "\<not> running st"
  shows "running (handlePlayPause T st)"
    "baseTimeRef (handlePlayPause T st) = None"
    "baseAngleRef (handlePlayPause T st) = baseAngleRef st"
    "prevAngleRef (handlePlayPause T st) = baseAngleRef st"
    "angle (handlePlayPause T st) = angle st"
    "bpm (handlePlayPause T st) = bpm st"
    "builtRef (handlePlayPause T st)"
    "scheduled (handlePlayPause T st) = scheduled st @ [UnlockBeep]"
  using assms by (simp_all add: handlePlayPause_def Let_def buildGraph_clock)

lemma pause_clock:
  assumes "running st"
  shows "handlePlayPause T st = st\<lparr>baseAngleRef := angle st, running := False\<rparr>"
  using assms by (simp add: handlePlayPause_def)

lemma reset_clock:
  "running (reset T st) = running st"
  "angle (reset T st) = 0"
  "prevAngleRef (reset T st) = 0"
  "baseAngleRef (reset T st) = 0"
  "bpm (reset T st) = 60"
  "baseTimeRef (reset T st) = (if running st then None else baseTimeRef st)"
  "builtRef (reset T st)"
  by (simp_all add: reset_def Let_def buildGraph_clock)

subsection \<open>The sweep clock\<close>

lemma step_frame_running: "running st \<Longrightarrow> step T (Frame ts) st = loop ts st"
  by (simp add: step_def)

lemma step_frame_stopped: "\<not> running st \<Longrightarrow> step T (Frame ts) st = st"
  by (simp add: step_def)

lemma run_append: "run T (xs @ ys) st = run T ys (run T xs st)"
  by (induction xs arbitrary: st) simp_all

lemma run_frames_stopped: "\<not> running st \<Longrightarrow> run T (map Frame fs) st = st"
  by (induction fs) (simp_all add: step_frame_stopped)

lemma run_frames_clock:
  assumes "running st" "baseTimeRef st = Some b"
  shows "running (run T (map Frame fs) st)
     \<and> baseTimeRef (run T (map Frame fs) st) = Some b
     \<and> baseAngleRef (run T (map Frame fs) st) = baseAngleRef st
     \<and> bpm (run T (map Frame fs) st) = bpm st"
  using assms
proof (induction fs arbitrary: st)
  case Nil
  then show ?case by simp
next
  case (Cons t fs)
  have s: "step T (Frame t) st = loop t st"
    using Cons.prems(1) by (rule step_frame_running)
  have "running (loop t st)" "baseTimeRef (loop t st) = Some b"
    using Cons.prems by (simp_all add: loop_clock)
  from Cons.IH [OF this] show ?case
    by (simp add: s loop_clock)
qed

text \<open>
  Claim C2. While the clock runs, the first frame after a (re)start, at \<open>start\<close>, records
  \<open>start\<close> (in seconds) as the base timestamp, and every frame after it, at \<open>t\<close>, computes
  the angle \<open>wrapDeg (b + (t - start) * r)\<close> from the base angle \<open>b\<close> and the tempo \<open>r\<close> in
  degrees per second. With a tempo of 30 degrees per second (5 beats per minute) and
  base angle 0, a frame two seconds after the first computes 60.
\<close>

theorem clock_angle_formula:
  "(running st \<and> baseTimeRef st = None \<longrightarrow>
      baseTimeRef (step T (Frame start) st) = Some (start / 1000)
      \<and> angle (step T (Frame start) st) = wrapDeg (baseAngleRef st)
      \<and> baseTimeRef (run T (map Frame (start # fs @ [t])) st) = Some (start / 1000)
      \<and> angle (run T (map Frame (start # fs @ [t])) st) =
          wrapDeg (baseAngleRef st + (t / 1000 - start / 1000) * tempo st))
   \<and> tempo (run T [SetBpm 5, PlayPause, Frame 1000] init) = 30
   \<and> baseAngleRef (run T [SetBpm 5, PlayPause, Frame 1000] init) = 0
   \<and> angle (run T [SetBpm 5, PlayPause, Frame 1000, Frame 3000] init) = 60"
proof -
  have gen: "baseTimeRef (step T (Frame start) st) = Some (start / 1000)
      \<and> angle (step T (Frame start) st) = wrapDeg (baseAngleRef st)
      \<and> baseTimeRef (run T (map Frame (start # fs @ [t])) st) = Some (start / 1000)
      \<and> angle (run T (map Frame (start # fs @ [t])) st) =
          wrapDeg (baseAngleRef st + (t / 1000 - start / 1000) * tempo st)"
    if r: "running st" and b: "baseTimeRef st = None"
  proof -
    define s0 where "s0 = loop start st"
    have s0: "running s0" "baseTimeRef s0 = Some (start / 1000)" "baseAngleRef s0 = baseAngleRef st"
      "bpm s0 = bpm st" "angle s0 = wrapDeg (baseAngleRef st)"
      unfolding s0_def using r b by (simp_all add: loop_clock)
    define s1 where "s1 = run T (map Frame fs) s0"
    have s1: "running s1" "baseTimeRef s1 = Some (start / 1000)" "baseAngleRef s1 = baseAngleRef st"
      "bpm s1 = bpm st"
      unfolding s1_def using run_frames_clock [OF s0(1) s0(2), of T fs] s0 by simp_all
    have "run T (map Frame (start # fs @ [t])) st = loop t s1"
      unfolding s1_def s0_def using r s1(1) [unfolded s1_def s0_def]
      by (simp add: run_append step_frame_running)
    then show ?thesis
      using s0 s1 r by (simp add: loop_clock tempo_def step_frame_running s0_def [symmetric])
  qed
  define p where "p = step T PlayPause (step T (SetBpm 5) init)"
  have p0: "\<not> running (step T (SetBpm 5) init)" "bpm (step T (SetBpm 5) init) = 5"
    "baseAngleRef (step T (SetBpm 5) init) = 0"
    by (simp_all add: step_def init_def)
  have p: "running p" "baseTimeRef p = None" "baseAngleRef p = 0" "bpm p = 5"
    unfolding p_def using p0 by (simp_all add: step_def play_clock)
  define q where "q = loop 1000 p"
  have q: "running q" "baseTimeRef q = Some 1" "baseAngleRef q = 0" "bpm q = 5"
    unfolding q_def using p by (simp_all add: loop_clock)
  have r1: "run T [SetBpm 5, PlayPause, Frame 1000] init = q"
    unfolding q_def using p(1) by (simp add: p_def [symmetric] step_frame_running)
  have r2: "run T [SetBpm 5, PlayPause, Frame 1000, Frame 3000] init = loop 3000 q"
    unfolding q_def using p(1) q(1) [unfolded q_def] by (simp add: p_def [symmetric] step_frame_running)
  have w: "wrapDeg 60 = 60" by (rule wrapDeg_id) simp_all
  have ex: "tempo (run T [SetBpm 5, PlayPause, Frame 1000] init) = 30
   \<and> baseAngleRef (run T [SetBpm 5, PlayPause, Frame 1000] init) = 0
   \<and> angle (run T [SetBpm 5, PlayPause, Frame 1000, Frame 3000] init) = 60"
    unfolding r1 r2 using q by (simp add: loop_clock tempo_def w)
  show ?thesis
    using gen ex by blast
qed


theorem clock_angle_formula_witness:
  "running (run tone_full [SetBpm 5, PlayPause] init)
   \<and> baseTimeRef (run tone_full [SetBpm 5, PlayPause] init) = None
   \<and> baseTimeRef (run tone_full (map Frame [1000, 2000, 3000])
         (run tone_full [SetBpm 5, PlayPause] init)) = Some 1
   \<and> angle (run tone_full (map Frame [1000, 2000, 3000])
         (run tone_full [SetBpm 5, PlayPause] init)) = 60"
proof -
  define s where "s = run tone_full [SetBpm 5, PlayPause] init"
  have p0: "\<not> running (step tone_full (SetBpm 5) init)" "bpm (step tone_full (SetBpm 5) init) = 5"
    "baseAngleRef (step tone_full (SetBpm 5) init) = 0"
    by (simp_all add: step_def init_def)
  have s: "running s" "baseTimeRef s = None" "baseAngleRef s = 0" "tempo s = 30"
    unfolding s_def tempo_def using p0 by (simp_all add: step_def play_clock)
  have w: "wrapDeg 60 = 60" by (rule wrapDeg_id) simp_all
  show ?thesis
    unfolding s_def [symmetric]
    using s w clock_angle_formula [where st = s and T = tone_full and start = 1000 and fs = "[2000]" and t = 3000] by simp
qed

lemma setBpm_next_frame:
  assumes r: "running st" and b: "baseTimeRef st = Some b"
  shows "baseTimeRef (step T (SetBpm v) st) = Some b
      \<and> baseAngleRef (step T (SetBpm v) st) = baseAngleRef st
      \<and> tempo (step T (SetBpm v) st) = 360 * (v / 60)
      \<and> angle (run T [SetBpm v, Frame t] st) =
          wrapDeg (baseAngleRef st + (t / 1000 - b) * (360 * (v / 60)))"
proof -
  define s where "s = step T (SetBpm v) st"
  have s: "running s" "baseTimeRef s = Some b" "baseAngleRef s = baseAngleRef st"
    "tempo s = 360 * (v / 60)"
    unfolding s_def tempo_def using r b by (simp_all add: step_def)
  have "run T [SetBpm v, Frame t] st = loop t s"
    using s(1) by (simp add: s_def [symmetric] step_frame_running)
  then show ?thesis
    using s by (simp add: s_def [symmetric] loop_clock)
qed

text \<open>
  Claim C3. A change of tempo while running keeps the base timestamp and the base angle
  recorded at the last resume, and the next frame, at \<open>t\<close>, computes
  \<open>wrapDeg (baseAngle + (t - baseTimestamp) * r')\<close> with the new tempo \<open>r'\<close>: the whole
  interval since the last resume is rescaled. For example, one second at 30 degrees per
  second followed by one second at 60 gives \<open>2 * 60 = 120\<close> degrees, not \<open>30 + 60 = 90\<close>.
\<close>

theorem tempo_change_rescales:
  "(running st \<and> baseTimeRef st = Some b \<longrightarrow>
      baseTimeRef (step T (SetBpm v) st) = Some b
      \<and> baseAngleRef (step T (SetBpm v) st) = baseAngleRef st
      \<and> tempo (step T (SetBpm v) st) = 360 * (v / 60)
      \<and> angle (run T [SetBpm v, Frame t] st) =
          wrapDeg (baseAngleRef st + (t / 1000 - b) * (360 * (v / 60))))
   \<and> angle (run T [SetBpm 5, PlayPause, Frame 0, Frame 1000] init) = 30
   \<and> angle (run T [SetBpm 5, PlayPause, Frame 0, Frame 1000, SetBpm 10, Frame 2000] init) = 120"
proof -
  define p where "p = step T PlayPause (step T (SetBpm 5) init)"
  have p0: "\<not> running (step T (SetBpm 5) init)" "bpm (step T (SetBpm 5) init) = 5"
    "baseAngleRef (step T (SetBpm 5) init) = 0"
    by (simp_all add: step_def init_def)
  have p: "running p" "baseTimeRef p = None" "baseAngleRef p = 0" "bpm p = 5"
    unfolding p_def using p0 by (simp_all add: step_def play_clock)
  define q where "q = loop 0 p"
  have q: "running q" "baseTimeRef q = Some 0" "baseAngleRef q = 0" "bpm q = 5"
    unfolding q_def using p by (simp_all add: loop_clock)
  define q1 where "q1 = loop 1000 q"
  have q1: "running q1" "baseTimeRef q1 = Some 0" "baseAngleRef q1 = 0" "bpm q1 = 5"
    unfolding q1_def using q by (simp_all add: loop_clock)
  have w: "wrapDeg 30 = 30" "wrapDeg 120 = 120" by (rule wrapDeg_id; simp)+
  have r1: "run T [SetBpm 5, PlayPause, Frame 0, Frame 1000] init = q1"
    unfolding q1_def q_def using p(1) q(1) [unfolded q_def]
    by (simp add: p_def [symmetric] step_frame_running)
  have a1: "angle q1 = 30"
    unfolding q1_def using q w by (simp add: loop_clock tempo_def)
  have r2: "run T [SetBpm 5, PlayPause, Frame 0, Frame 1000, SetBpm 10, Frame 2000] init
      = run T [SetBpm 10, Frame 2000] q1"
    unfolding q1_def q_def using p(1) q(1) [unfolded q_def]
    by (simp add: p_def [symmetric] step_frame_running)
  have a2: "angle (run T [SetBpm 10, Frame 2000] q1) = 120"
    using setBpm_next_frame [OF q1(1) q1(2), where v = 10 and t = 2000] q1 w by simp
  show ?thesis
    using setBpm_next_frame [of st b T v t] r1 a1 r2 a2 by simp
qed

theorem tempo_change_rescales_witness:
  "running (run tone_full [PlayPause, Frame 0, Frame 500] init)
   \<and> baseTimeRef (run tone_full [PlayPause, Frame 0, Frame 500] init) = Some 0
   \<and> baseTimeRef (step tone_full (SetBpm 90) (run tone_full [PlayPause, Frame 0, Frame 500] init))
       = Some 0
   \<and> angle (run tone_full [PlayPause, Frame 0, Frame 500] init) = 180
   \<and> angle (run tone_full [SetBpm 90, Frame 600]
              (run tone_full [PlayPause, Frame 0, Frame 500] init)) = 324"
proof -
  define p where "p = step tone_full PlayPause init"
  have p0: "\<not> running init" "bpm init = 60" "baseAngleRef init = 0"
    by (simp_all add: init_def)
  have p: "running p" "baseTimeRef p = None" "baseAngleRef p = 0" "bpm p = 60"
    unfolding p_def using p0 by (simp_all add: step_def play_clock)
  define q where "q = loop 0 p"
  have q: "running q" "baseTimeRef q = Some 0" "baseAngleRef q = 0" "bpm q = 60"
    unfolding q_def using p by (simp_all add: loop_clock)
  define s where "s = loop 500 q"
  have s: "running s" "baseTimeRef s = Some 0" "baseAngleRef s = 0" "bpm s = 60"
    unfolding s_def using q by (simp_all add: loop_clock)
  have w: "wrapDeg 180 = 180" "wrapDeg 324 = 324" by (rule wrapDeg_id; simp)+
  have a: "angle s = 180"
    unfolding s_def using q w by (simp add: loop_clock tempo_def)
  have r: "run tone_full [PlayPause, Frame 0, Frame 500] init = s"
    unfolding s_def q_def using p(1) q(1) [unfolded q_def]
    by (simp add: p_def [symmetric] step_frame_running)
  show ?thesis
    unfolding r
    using s a w tempo_change_rescales [where st = s and b = 0 and T = tone_full and v = 90 and t = 600]
    by simp
qed

subsection \<open>Angles stay normalised\<close>

lemma step_normalised:
  assumes "0 \<le> angle st \<and> angle st < 360"
    and "0 \<le> prevAngleRef st \<and> prevAngleRef st < 360"
    and "0 \<le> baseAngleRef st \<and> baseAngleRef st < 360"
  shows "(0 \<le> angle (step T ev st) \<and> angle (step T ev st) < 360)
     \<and> (0 \<le> prevAngleRef (step T ev st) \<and> prevAngleRef (step T ev st) < 360)
     \<and> (0 \<le> baseAngleRef (step T ev st) \<and> baseAngleRef (step T ev st) < 360)"
proof (cases ev)
  case (Frame ts)
  show ?thesis
  proof (cases "running st")
    case True
    then show ?thesis
      using assms wrapDeg_range by (simp add: Frame step_frame_running loop_clock)
  next
    case False
    then show ?thesis
      using assms by (simp add: Frame step_frame_stopped)
  qed
next
  case PlayPause
  show ?thesis
  proof (cases "running st")
    case True
    then show ?thesis
      using assms by (simp add: PlayPause step_def pause_clock)
  next
    case False
    then show ?thesis
      using assms by (simp add: PlayPause step_def play_clock)
  qed
next
  case Reset
  then show ?thesis by (simp add: step_def reset_clock)
qed (use assms in \<open>simp_all add: step_def\<close>)

lemma run_normalised:
  assumes "0 \<le> angle st \<and> angle st < 360"
    and "0 \<le> prevAngleRef st \<and> prevAngleRef st < 360"
    and "0 \<le> baseAngleRef st \<and> baseAngleRef st < 360"
  shows "(0 \<le> angle (run T evs st) \<and> angle (run T evs st) < 360)
     \<and> (0 \<le> prevAngleRef (run T evs st) \<and> prevAngleRef (run T evs st) < 360)
     \<and> (0 \<le> baseAngleRef (run T evs st) \<and> baseAngleRef (run T evs st) < 360)"
  using assms
proof (induction evs arbitrary: st)
  case Nil
  then show ?case by simp
next
  case (Cons ev evs)
  have "(0 \<le> angle (step T ev st) \<and> angle (step T ev st) < 360)
     \<and> (0 \<le> prevAngleRef (step T ev st) \<and> prevAngleRef (step T ev st) < 360)
     \<and> (0 \<le> baseAngleRef (step T ev st) \<and> baseAngleRef (step T ev st) < 360)"
    using Cons.prems by (rule step_normalised)
  then show ?case
    using Cons.IH [of "step T ev st"] by simp
qed

lemma reachable_normalised:
  "(0 \<le> angle (run T evs init) \<and> angle (run T evs init) < 360)
     \<and> (0 \<le> prevAngleRef (run T evs init) \<and> prevAngleRef (run T evs init) < 360)
     \<and> (0 \<le> baseAngleRef (run T evs init) \<and> baseAngleRef (run T evs init) < 360)"
  by (rule run_normalised) (simp_all add: init_def)

text \<open>
  Claim C8. In every state reached from the initial one by any sequence of frames, clicks
  on Play/Pause and Reset and slider moves, the current angle and the previous angle lie
  in \<open>[0, 360)\<close> (and so does the base angle).
\<close>

theorem angles_always_normalised:
  "0 \<le> angle (run T evs init) \<and> angle (run T evs init) < 360
   \<and> 0 \<le> prevAngleRef (run T evs init) \<and> prevAngleRef (run T evs init) < 360
   \<and> 0 \<le> baseAngleRef (run T evs init) \<and> baseAngleRef (run T evs init) < 360"
  using reachable_normalised [of T evs] by simp

subsection \<open>Pause, resume and reset\<close>

lemma dispatch_none:
  "(\<And>p. p \<in> set ps \<Longrightarrow> \<not> crossed prev cur (deg p)) \<Longrightarrow> forEach
      (\<lambda>p idx s. if crossed prev cur (deg p) then trig p idx s else s) ps i s = s"
  by (induction ps arbitrary: i s) simp_all

lemma loop_still:
  assumes "prevAngleRef st = wrapDeg (baseAngleRef st)" "baseTimeRef st = None"
  shows "scheduled (loop ts st) = scheduled st"
proof -
  have "dispatch triggerPlanet PLANETS (wrapDeg (baseAngleRef st)) (wrapDeg (baseAngleRef st)) s = s"
    for s :: state
    unfolding dispatch_def by (rule dispatch_none) (simp add: crossed_normal)
  then show ?thesis
    using assms by (simp add: loop_def Let_def tempo_def)
qed

text \<open>
  Claim C4. Pausing a running sweep at the displayed angle \<open>A\<close> records \<open>A\<close> as the base
  angle and stops the frames; resuming clears the base timestamp and sets the previous
  angle to \<open>A\<close>, so that the first frame after the resume, at \<open>t\<close>, records \<open>t\<close> as the
  base timestamp, computes the angle \<open>A\<close> again and triggers nothing, and a later frame
  at \<open>u\<close> computes \<open>wrapDeg (A + (u - t) * tempo)\<close>: the sweep continues from \<open>A\<close>.
\<close>

theorem pause_resume_continues:
  "running (run T evs init) \<longrightarrow>
     (let st = run T evs init;
          A = angle st;
          paused = step T PlayPause st;
          resumed = step T PlayPause (run T (map Frame fs) paused);
          first = step T (Frame t) resumed
      in \<not> running paused \<and> baseAngleRef paused = A \<and> angle paused = A
         \<and> run T (map Frame fs) paused = paused
         \<and> running resumed \<and> baseTimeRef resumed = None
         \<and> baseAngleRef resumed = A \<and> prevAngleRef resumed = A \<and> angle resumed = A
         \<and> baseTimeRef first = Some (t / 1000) \<and> angle first = A \<and> prevAngleRef first = A
         \<and> scheduled first = scheduled resumed
         \<and> angle (step T (Frame u) first) = wrapDeg (A + (u / 1000 - t / 1000) * tempo st))"
proof
  assume r: "running (run T evs init)"
  define st where "st = run T evs init"
  define A where "A = angle st"
  define paused where "paused = step T PlayPause st"
  define resumed where "resumed = step T PlayPause (run T (map Frame fs) paused)"
  define first where "first = step T (Frame t) resumed"
  have A: "0 \<le> A" "A < 360"
    unfolding A_def st_def using reachable_normalised [of T evs] by simp_all
  then have wA: "wrapDeg A = A" by (rule wrapDeg_id)
  have run: "running st" using r by (simp add: st_def)
  have paused: "\<not> running paused" "baseAngleRef paused = A" "angle paused = A"
    "bpm paused = bpm st"
    unfolding paused_def A_def using run by (simp_all add: step_def pause_clock)
  have still: "run T (map Frame fs) paused = paused"
    using paused(1) by (rule run_frames_stopped)
  have resumed: "running resumed" "baseTimeRef resumed = None" "baseAngleRef resumed = A"
    "prevAngleRef resumed = A" "angle resumed = A" "bpm resumed = bpm st"
    unfolding resumed_def still using paused by (simp_all add: step_def play_clock)
  have f: "first = loop t resumed"
    unfolding first_def using resumed(1) by (rule step_frame_running)
  have first: "running first" "baseTimeRef first = Some (t / 1000)" "angle first = A"
    "prevAngleRef first = A" "baseAngleRef first = A" "bpm first = bpm st"
    unfolding f using resumed wA by (simp_all add: loop_clock)
  have quiet: "scheduled first = scheduled resumed"
    unfolding f by (rule loop_still) (simp_all add: resumed wA)
  have later: "angle (step T (Frame u) first) = wrapDeg (A + (u / 1000 - t / 1000) * tempo st)"
    using first by (simp add: step_frame_running loop_clock tempo_def)
  show "let st = run T evs init;
          A = angle st;
          paused = step T PlayPause st;
          resumed = step T PlayPause (run T (map Frame fs) paused);
          first = step T (Frame t) resumed
      in \<not> running paused \<and> baseAngleRef paused = A \<and> angle paused = A
         \<and> run T (map Frame fs) paused = paused
         \<and> running resumed \<and> baseTimeRef resumed = None
         \<and> baseAngleRef resumed = A \<and> prevAngleRef resumed = A \<and> angle resumed = A
         \<and> baseTimeRef first = Some (t / 1000) \<and> angle first = A \<and> prevAngleRef first = A
         \<and> scheduled first = scheduled resumed
         \<and> angle (step T (Frame u) first) = wrapDeg (A + (u / 1000 - t / 1000) * tempo st)"
    unfolding Let_def st_def [symmetric] A_def [symmetric] paused_def [symmetric]
      resumed_def [symmetric] first_def [symmetric]
    using paused still resumed first quiet later by simp
qed

theorem pause_resume_continues_witness:
  "running (run tone_full [PlayPause, Frame 0, Frame 250] init)
   \<and> angle (run tone_full [PlayPause, Frame 0, Frame 250] init) = 90
   \<and> \<not> running (run tone_full [PlayPause, Frame 300]
         (run tone_full [PlayPause, Frame 0, Frame 250] init))
   \<and> angle (run tone_full [PlayPause, Frame 300, PlayPause, Frame 5000]
         (run tone_full [PlayPause, Frame 0, Frame 250] init)) = 90
   \<and> angle (run tone_full [PlayPause, Frame 300, PlayPause, Frame 5000, Frame 5250]
         (run tone_full [PlayPause, Frame 0, Frame 250] init)) = 180"
proof -
  define p where "p = step tone_full PlayPause init"
  have p0: "\<not> running init" "bpm init = 60" "baseAngleRef init = 0"
    by (simp_all add: init_def)
  have p: "running p" "baseTimeRef p = None" "baseAngleRef p = 0" "bpm p = 60"
    unfolding p_def using p0 by (simp_all add: step_def play_clock)
  define q where "q = loop 0 p"
  have q: "running q" "baseTimeRef q = Some 0" "baseAngleRef q = 0" "bpm q = 60"
    unfolding q_def using p by (simp_all add: loop_clock)
  define s where "s = loop 250 q"
  have w: "wrapDeg 90 = 90" "wrapDeg 180 = 180" by (rule wrapDeg_id; simp)+
  have s: "running s" "angle s = 90" "tempo s = 360"
    unfolding s_def using q w by (simp_all add: loop_clock tempo_def)
  have r: "run tone_full [PlayPause, Frame 0, Frame 250] init = s"
    unfolding s_def q_def using p(1) q(1) [unfolded q_def]
    by (simp add: p_def [symmetric] step_frame_running)
  show ?thesis
    using s w
      pause_resume_continues [where T = tone_full and evs = "[PlayPause, Frame 0, Frame 250]"
        and fs = "[300]" and t = 5000 and u = 5250]
    unfolding r Let_def by auto
qed

text \<open>
  Claim C5, as the code has it. Reset on a running transport leaves it running: the
  angle, the previous angle and the base angle are set to 0 and the base timestamp is
  cleared, so the next frame, at \<open>t\<close>, records \<open>t\<close> as the base timestamp and the sweep
  restarts from 0.
\<close>

theorem reset_while_running:
  "running st \<longrightarrow>
     running (step T Reset st)
     \<and> angle (step T Reset st) = 0
     \<and> prevAngleRef (step T Reset st) = 0
     \<and> baseAngleRef (step T Reset st) = 0
     \<and> baseTimeRef (step T Reset st) = None
     \<and> baseTimeRef (run T [Reset, Frame t] st) = Some (t / 1000)
     \<and> angle (run T [Reset, Frame t] st) = 0"
proof
  assume r: "running st"
  have s: "step T Reset st = reset T st" by (simp add: step_def)
  have w: "wrapDeg 0 = 0" by (rule wrapDeg_id) simp_all
  have f: "run T [Reset, Frame t] st = loop t (reset T st)"
    using r by (simp add: s step_frame_running reset_clock)
  show "running (step T Reset st)
     \<and> angle (step T Reset st) = 0
     \<and> prevAngleRef (step T Reset st) = 0
     \<and> baseAngleRef (step T Reset st) = 0
     \<and> baseTimeRef (step T Reset st) = None
     \<and> baseTimeRef (run T [Reset, Frame t] st) = Some (t / 1000)
     \<and> angle (run T [Reset, Frame t] st) = 0"
    unfolding s f using r w by (simp add: reset_clock loop_clock)
qed

theorem reset_while_running_witness:
  "running (run tone_full [PlayPause, Frame 0, Frame 250] init)
   \<and> running (step tone_full Reset (run tone_full [PlayPause, Frame 0, Frame 250] init))
   \<and> angle (step tone_full Reset (run tone_full [PlayPause, Frame 0, Frame 250] init)) = 0
   \<and> baseTimeRef (step tone_full Reset (run tone_full [PlayPause, Frame 0, Frame 250] init)) = None"
proof -
  have p0: "\<not> running init" by (simp add: init_def)
  have "running (run tone_full [PlayPause, Frame 0, Frame 250] init)"
    using p0 by (simp add: step_def play_clock loop_clock)
  then show ?thesis
    using reset_while_running [of "run tone_full [PlayPause, Frame 0, Frame 250] init" tone_full 0]
    by simp
qed

text \<open>
  Claim C5, as stated, fails: after Play and then Reset the transport is still running.
\<close>

theorem reset_stops_counterexample:
  "running (run tone_full [PlayPause] init) \<and> running (run tone_full [PlayPause, Reset] init)"
proof -
  have "\<not> running init" by (simp add: init_def)
  then show ?thesis
    by (simp add: step_def play_clock reset_clock)
qed

subsection \<open>What reset restores\<close>

lemma fold_upd_by_key:
  "fold (\<lambda>p m. m(f p \<mapsto> g (f p))) ps m0 k = (if k \<in> f ` set ps then Some (g k) else m0 k)"
  by (induction ps arbitrary: m0) auto

lemma ORIGINAL_INSTRUMENTS_planet:
  "p \<in> set PLANETS \<Longrightarrow> ORIGINAL_INSTRUMENTS (key p) = Some (instrument p)"
  by (auto simp: PLANETS_def ORIGINAL_INSTRUMENTS_def fromEntries_def)

lemma buildGraph_synths:
  assumes "\<not> builtRef st"
  shows "synthsRef (buildGraph T rs st) k =
     (if k \<in> key ` set PLANETS
      then Some \<lparr>current = instrumentMap st k,
                 nodes = fold (\<lambda>(k, l) m. m(k \<mapsto> makeSynth k)) SOUND_LIBRARY Map.empty\<rparr>
      else None)"
  using assms
    fold_upd_by_key [of key "\<lambda>k. \<lparr>current = instrumentMap st k,
                 nodes = fold (\<lambda>(k, l) m. m(k \<mapsto> makeSynth k)) SOUND_LIBRARY Map.empty\<rparr>"
      PLANETS Map.empty k]
  by (simp add: buildGraph_def Let_def)

lemma buildGraph_nodes:
  "(k, l) \<in> set SOUND_LIBRARY \<Longrightarrow>
     fold (\<lambda>(k, l) m. m(k \<mapsto> makeSynth k)) SOUND_LIBRARY Map.empty k = Some (makeSynth k)"
proof -
  have "fold (\<lambda>(k, l) m. m(k \<mapsto> makeSynth k)) kls m0 k =
      (if k \<in> fst ` set kls then Some (makeSynth k) else m0 k)" for kls :: "(string \<times> string) list" and m0
    by (induction kls arbitrary: m0) auto
  then show "(k, l) \<in> set SOUND_LIBRARY \<Longrightarrow> ?thesis"
    by force
qed

lemma reset_settings:
  "instrumentMap (reset T st) = ORIGINAL_INSTRUMENTS"
  "distWet (reset T st) = 0.15"
  "filtWet (reset T st) = 0.10"
  "delWet (reset T st) = 0.18"
  "revWet (reset T st) = 0.12"
  by (simp_all add: reset_def Let_def buildGraph_clock)

lemma reset_synths_built:
  assumes "builtRef st"
  shows "synthsRef (reset T st) k =
     (case synthsRef st k of
        None \<Rightarrow> None
      | Some sl \<Rightarrow> Some (sl\<lparr>current := ORIGINAL_INSTRUMENTS k\<rparr>))"
    "distortionRef (reset T st) = set_wet 0.15 (distortionRef st)"
    "autoFilterRef (reset T st) = set_wet 0.10 (autoFilterRef st)"
    "delayRef (reset T st) = set_wet 0.18 (delayRef st)"
    "reverbRef (reset T st) = set_wet 0.12 (reverbRef st)"
  using assms by (simp_all add: reset_def Let_def)

lemma reset_synths_unbuilt:
  assumes "\<not> builtRef st"
  shows "synthsRef (reset T st) k =
     (if k \<in> key ` set PLANETS
      then Some \<lparr>current = ORIGINAL_INSTRUMENTS k,
                 nodes = fold (\<lambda>(k, l) m. m(k \<mapsto> makeSynth k)) SOUND_LIBRARY Map.empty\<rparr>
      else None)"
proof -
  define st3 where "st3 =
    st\<lparr>baseAngleRef := 0, prevAngleRef := 0, angle := 0, bpm := 60,
       instrumentMap := ORIGINAL_INSTRUMENTS,
       synthsRef := (\<lambda>k. case synthsRef st k of
                            None \<Rightarrow> None
                          | Some sl \<Rightarrow> Some (sl\<lparr>current := ORIGINAL_INSTRUMENTS k\<rparr>)),
       distWet := 0.15, filtWet := 0.10, delWet := 0.18, revWet := 0.12,
       distortionRef := set_wet 0.15 (distortionRef st),
       autoFilterRef := set_wet 0.10 (autoFilterRef st),
       delayRef := set_wet 0.18 (delayRef st),
       reverbRef := set_wet 0.12 (reverbRef st)\<rparr>"
  have nb: "\<not> builtRef st3" "instrumentMap st3 = ORIGINAL_INSTRUMENTS"
    using assms by (simp_all add: st3_def)
  have "synthsRef (reset T st) = synthsRef (buildGraph T st st3)"
    using assms by (simp add: reset_def Let_def st3_def)
  then show ?thesis
    using buildGraph_synths [OF nb(1), of T st k] nb(2) by simp
qed

text \<open>
  What reset does besides zeroing the angles: it sets the tempo to 60 beats per minute
  (360 degrees per second), restores the startup instrument of every body (in the
  instrument map and in every slot of the audio graph), sets the four wet state values to
  0.15, 0.10, 0.18 and 0.12, writes them to the wet parameter of every effect node of a
  graph that is already built, builds the audio graph when it was not built, with a slot
  for every body and a node for every sound of the library, and leaves the running flag
  as it was.
\<close>

lemma reset_restores_defaults:
  "bpm (reset T st) = 60 \<and> tempo (reset T st) = 360
   \<and> instrumentMap (reset T st) = ORIGINAL_INSTRUMENTS
   \<and> (\<forall>p \<in> set PLANETS. instrumentMap (reset T st) (key p) = Some (instrument p))
   \<and> (\<forall>k sl. synthsRef (reset T st) k = Some sl \<longrightarrow> current sl = ORIGINAL_INSTRUMENTS k)
   \<and> distWet (reset T st) = 0.15 \<and> filtWet (reset T st) = 0.10
   \<and> delWet (reset T st) = 0.18 \<and> revWet (reset T st) = 0.12
   \<and> (builtRef st \<longrightarrow>
        (\<forall>w. distortionRef st = Some (FxNode (Some w)) \<longrightarrow>
              distortionRef (reset T st) = Some (FxNode (Some 0.15)))
        \<and> (\<forall>w. autoFilterRef st = Some (FxNode (Some w)) \<longrightarrow>
              autoFilterRef (reset T st) = Some (FxNode (Some 0.10)))
        \<and> (\<forall>w. delayRef st = Some (FxNode (Some w)) \<longrightarrow>
              delayRef (reset T st) = Some (FxNode (Some 0.18)))
        \<and> (\<forall>w. reverbRef st = Some (FxNode (Some w)) \<longrightarrow>
              reverbRef (reset T st) = Some (FxNode (Some 0.12)))
        \<and> dom (synthsRef (reset T st)) = dom (synthsRef st))
   \<and> builtRef (reset T st)
   \<and> (\<not> builtRef st \<longrightarrow>
        (\<forall>p \<in> set PLANETS. \<exists>sl. synthsRef (reset T st) (key p) = Some sl
            \<and> current sl = Some (instrument p)
            \<and> (\<forall>kl \<in> set SOUND_LIBRARY. nodes sl (fst kl) = Some (makeSynth (fst kl)))))
   \<and> running (reset T st) = running st"
proof -
  have 1: "bpm (reset T st) = 60 \<and> tempo (reset T st) = 360"
    by (simp add: tempo_def reset_clock)
  have 2: "\<forall>p \<in> set PLANETS. instrumentMap (reset T st) (key p) = Some (instrument p)"
    by (simp add: reset_settings ORIGINAL_INSTRUMENTS_planet)
  have 3: "\<forall>k sl. synthsRef (reset T st) k = Some sl \<longrightarrow> current sl = ORIGINAL_INSTRUMENTS k"
  proof (cases "builtRef st")
    case True
    then show ?thesis
      by (auto simp: reset_synths_built split: option.splits)
  next
    case False
    then show ?thesis
      by (auto simp: reset_synths_unbuilt split: if_splits)
  qed
  have 4: "builtRef st \<longrightarrow>
        (\<forall>w. distortionRef st = Some (FxNode (Some w)) \<longrightarrow>
              distortionRef (reset T st) = Some (FxNode (Some 0.15)))
        \<and> (\<forall>w. autoFilterRef st = Some (FxNode (Some w)) \<longrightarrow>
              autoFilterRef (reset T st) = Some (FxNode (Some 0.10)))
        \<and> (\<forall>w. delayRef st = Some (FxNode (Some w)) \<longrightarrow>
              delayRef (reset T st) = Some (FxNode (Some 0.18)))
        \<and> (\<forall>w. reverbRef st = Some (FxNode (Some w)) \<longrightarrow>
              reverbRef (reset T st) = Some (FxNode (Some 0.12)))
        \<and> dom (synthsRef (reset T st)) = dom (synthsRef st)"
    by (auto simp: reset_synths_built set_wet_def split: option.splits)
  have 5: "\<not> builtRef st \<longrightarrow>
        (\<forall>p \<in> set PLANETS. \<exists>sl. synthsRef (reset T st) (key p) = Some sl
            \<and> current sl = Some (instrument p)
            \<and> (\<forall>kl \<in> set SOUND_LIBRARY. nodes sl (fst kl) = Some (makeSynth (fst kl))))"
  proof (intro impI ballI)
    fix p assume nb: "\<not> builtRef st" and p: "p \<in> set PLANETS"
    have n: "\<forall>kl \<in> set SOUND_LIBRARY.
        fold (\<lambda>(k, l) m. m(k \<mapsto> makeSynth k)) SOUND_LIBRARY Map.empty (fst kl)
          = Some (makeSynth (fst kl))"
      using buildGraph_nodes by force
    show "\<exists>sl. synthsRef (reset T st) (key p) = Some sl
            \<and> current sl = Some (instrument p)
            \<and> (\<forall>kl \<in> set SOUND_LIBRARY. nodes sl (fst kl) = Some (makeSynth (fst kl)))"
      using p n by (simp add: reset_synths_unbuilt [OF nb] ORIGINAL_INSTRUMENTS_planet)
  qed
  show ?thesis
    using 1 2 3 4 5 by (simp add: reset_settings reset_clock)
qed

lemma reset_restores_defaults_example:
  "\<not> builtRef init
   \<and> (\<exists>sl. synthsRef (reset tone_full init) ''Sun'' = Some sl
         \<and> current sl = Some ''lead'' \<and> current sl = ORIGINAL_INSTRUMENTS ''Sun''
         \<and> nodes sl ''kick'' = Some MembraneSynth)
   \<and> instrumentMap (reset tone_full init) ''Sun'' = Some ''lead''
   \<and> builtRef (run tone_full [PlayPause, SetDistWet 0.5] init)
   \<and> distortionRef (run tone_full [PlayPause, SetDistWet 0.5] init) = Some (FxNode (Some 0.5))
   \<and> distortionRef (reset tone_full (run tone_full [PlayPause, SetDistWet 0.5] init))
        = Some (FxNode (Some 0.15))
   \<and> distWet (reset tone_full (run tone_full [PlayPause, SetDistWet 0.5] init)) = 0.15"
proof -
  define sun where "sun = \<lparr>key = ''Sun'', deg = 311.59, instrument = ''lead''\<rparr>"
  have sun: "sun \<in> set PLANETS" "key sun = ''Sun''" "instrument sun = ''lead''"
    by (simp_all add: sun_def PLANETS_def)
  have kick: "(''kick'', ''Kick (thump)'') \<in> set SOUND_LIBRARY" "makeSynth ''kick'' = MembraneSynth"
    by (simp_all add: SOUND_LIBRARY_def makeSynth_def)
  have nb: "\<not> builtRef init" by (simp add: init_def)
  define s where "s = run tone_full [PlayPause, SetDistWet 0.5] init"
  have s: "builtRef s" "distortionRef s = Some (FxNode (Some 0.5))"
    unfolding s_def
    by (simp_all add: step_def handlePlayPause_def buildGraph_def Let_def init_def tone_full_def
        add_def set_wet_def)
  have a: "\<exists>sl. synthsRef (reset tone_full init) ''Sun'' = Some sl
         \<and> current sl = Some ''lead'' \<and> current sl = ORIGINAL_INSTRUMENTS ''Sun''
         \<and> nodes sl ''kick'' = Some MembraneSynth"
    using reset_restores_defaults [of tone_full init] nb sun kick by force
  have b: "instrumentMap (reset tone_full init) ''Sun'' = Some ''lead''"
    using reset_restores_defaults [of tone_full init] sun by force
  have c: "distortionRef (reset tone_full s) = Some (FxNode (Some 0.15))
      \<and> distWet (reset tone_full s) = 0.15"
    using reset_restores_defaults [of tone_full s] s by blast
  show ?thesis
    unfolding s_def [symmetric] using nb a b c s by simp
qed

lemma reset_unbuilt_node_wet:
  assumes "\<not> builtRef st"
  shows "hasDistortion T \<Longrightarrow> distortionRef (reset T st) = Some (FxNode (Some (distWet st)))"
    "hasAutoFilter T \<Longrightarrow> autoFilterRef (reset T st) = Some (FxNode (Some (filtWet st)))"
    "hasFeedbackDelay T \<Longrightarrow> delayRef (reset T st) = Some (FxNode (Some (delWet st)))"
    "hasReverb T \<Longrightarrow> reverbRef (reset T st) = Some (FxNode (Some (revWet st)))"
  using assms by (simp_all add: reset_def Let_def buildGraph_def add_def)

text \<open>
  Claim C10. Reset is to set the four wet levels to 0.15, 0.10, 0.18 and 0.12 and to build
  the audio graph when it was not built. It writes the defaults to the effect nodes that
  exist before it builds the graph, and the \<^verbatim>\<open>buildGraph\<close> it then calls reads the wet
  levels of the render in which the handler was created: on a page whose distortion and
  reverb sliders were moved to 0.5 and 0.9 before the first Play, Reset sets the wet
  state values to 0.15 and 0.12 and builds the graph with a distortion node at 0.5 and a
  reverb node at 0.9.
\<close>

theorem reset_unbuilt_stale_wet:
  "\<not> builtRef (run tone_full [SetDistWet 0.5, SetRevWet 0.9] init)
   \<and> builtRef (run tone_full [SetDistWet 0.5, SetRevWet 0.9, Reset] init)
   \<and> distWet (run tone_full [SetDistWet 0.5, SetRevWet 0.9, Reset] init) = 0.15
   \<and> revWet (run tone_full [SetDistWet 0.5, SetRevWet 0.9, Reset] init) = 0.12
   \<and> distortionRef (run tone_full [SetDistWet 0.5, SetRevWet 0.9, Reset] init)
        = Some (FxNode (Some 0.5))
   \<and> reverbRef (run tone_full [SetDistWet 0.5, SetRevWet 0.9, Reset] init)
        = Some (FxNode (Some 0.9))"
proof -
  define s where "s = run tone_full [SetDistWet 0.5, SetRevWet 0.9] init"
  have s: "\<not> builtRef s" "distWet s = 0.5" "revWet s = 0.9"
    by (simp_all add: s_def step_def init_def)
  have r: "run tone_full [SetDistWet 0.5, SetRevWet 0.9, Reset] init = reset tone_full s"
    by (simp add: s_def step_def)
  have t: "hasDistortion tone_full" "hasReverb tone_full"
    by (simp_all add: tone_full_def)
  show ?thesis
    unfolding r s_def [symmetric]
    using s t reset_unbuilt_node_wet(1) [OF s(1) t(1)] reset_unbuilt_node_wet(4) [OF s(1) t(2)]
    by (simp add: reset_settings reset_clock)
qed

subsection \<open>A body without a voice\<close>

lemma trigger_no_slot: "synthsRef st (key p) = None \<Longrightarrow> triggerPlanet p idx st = st"
  unfolding triggerPlanet_def by (simp only: option.case)

lemma trigger_no_node:
  "synthsRef st (key p) = Some sl \<Longrightarrow> slot_node sl = None \<Longrightarrow> triggerPlanet p idx st = st"
  unfolding triggerPlanet_def by (simp only: option.case)

lemma voiceless_trigger:
  assumes "voiceless st p"
  shows "triggerPlanet p idx st = st"
proof (cases "synthsRef st (key p)")
  case None
  then show ?thesis by (rule trigger_no_slot)
next
  case (Some sl)
  with assms have "slot_node sl = None"
    by (simp add: voiceless_def)
  with Some show ?thesis by (rule trigger_no_node)
qed

lemma forEach_skip:
  "(\<And>p i. p \<in> set ps \<Longrightarrow> P p \<Longrightarrow> trig p i s = s) \<Longrightarrow>
     forEach (\<lambda>p idx s. if P p then trig p idx s else s) ps i s = s"
  by (induction ps arbitrary: i) simp_all

text \<open>
  Claim C9. When there is no slot for the key of a body, or the slot has no node for the
  instrument currently selected, the trigger returns the state as it is: no call is
  scheduled and nothing is modified. A frame in which every crossed body is in that
  case only advances the clock.
\<close>

theorem trigger_skipped_without_voice:
  "(synthsRef st (key p) = None \<longrightarrow> triggerPlanet p idx st = st)
   \<and> (synthsRef st (key p) = Some sl \<and> current sl = None \<longrightarrow> triggerPlanet p idx st = st)
   \<and> (synthsRef st (key p) = Some sl \<and> current sl = Some c \<and> nodes sl c = None \<longrightarrow>
        triggerPlanet p idx st = st)
   \<and> (voiceless st p \<longrightarrow> triggerPlanet p idx st = st)
   \<and> (baseTimeRef st = Some b
        \<and> (\<forall>q \<in> set PLANETS.
              crossed (prevAngleRef st) (wrapDeg (baseAngleRef st + (ts / 1000 - b) * tempo st)) (deg q)
                \<longrightarrow> voiceless st q) \<longrightarrow>
        loop ts st =
          st\<lparr>prevAngleRef := wrapDeg (baseAngleRef st + (ts / 1000 - b) * tempo st),
             angle := wrapDeg (baseAngleRef st + (ts / 1000 - b) * tempo st)\<rparr>)"
proof -
  have 1: "synthsRef st (key p) = None \<longrightarrow> triggerPlanet p idx st = st"
    using trigger_no_slot [of st p idx] by blast
  have 2: "synthsRef st (key p) = Some sl \<and> current sl = None \<longrightarrow> triggerPlanet p idx st = st"
  proof (intro impI, elim conjE)
    assume a: "synthsRef st (key p) = Some sl" and "current sl = None"
    then have "slot_node sl = None" by (simp add: slot_node_def)
    with a show "triggerPlanet p idx st = st" by (rule trigger_no_node)
  qed
  have 3: "synthsRef st (key p) = Some sl \<and> current sl = Some c \<and> nodes sl c = None \<longrightarrow>
        triggerPlanet p idx st = st"
  proof (intro impI, elim conjE)
    assume a: "synthsRef st (key p) = Some sl" and "current sl = Some c" "nodes sl c = None"
    then have "slot_node sl = None" by (simp add: slot_node_def)
    with a show "triggerPlanet p idx st = st" by (rule trigger_no_node)
  qed
  have 4: "voiceless st p \<longrightarrow> triggerPlanet p idx st = st"
    using voiceless_trigger [of st p idx] by blast
  have 5: "baseTimeRef st = Some b
        \<and> (\<forall>q \<in> set PLANETS.
              crossed (prevAngleRef st) (wrapDeg (baseAngleRef st + (ts / 1000 - b) * tempo st)) (deg q)
                \<longrightarrow> voiceless st q) \<longrightarrow>
        loop ts st =
          st\<lparr>prevAngleRef := wrapDeg (baseAngleRef st + (ts / 1000 - b) * tempo st),
             angle := wrapDeg (baseAngleRef st + (ts / 1000 - b) * tempo st)\<rparr>"
  proof (intro impI, elim conjE)
    define cur where "cur = wrapDeg (baseAngleRef st + (ts / 1000 - b) * tempo st)"
    assume b: "baseTimeRef st = Some b"
      and v: "\<forall>q \<in> set PLANETS.
              crossed (prevAngleRef st) (wrapDeg (baseAngleRef st + (ts / 1000 - b) * tempo st)) (deg q)
                \<longrightarrow> voiceless st q"
    have "st\<lparr>baseTimeRef := baseTimeRef st\<rparr> = st"
      by simp
    then have st1: "st\<lparr>baseTimeRef := Some b\<rparr> = st"
      unfolding b .
    have d: "dispatch triggerPlanet PLANETS (prevAngleRef st) cur st = st"
      unfolding dispatch_def
      by (rule forEach_skip) (use v in \<open>simp add: cur_def voiceless_trigger\<close>)
    have "loop ts st =
       (if builtRef st then dispatch triggerPlanet PLANETS (prevAngleRef st) cur st else st)
         \<lparr>prevAngleRef := cur, angle := cur\<rparr>"
      unfolding loop_def Let_def b option.case st1 cur_def ..
    also have "\<dots> = st\<lparr>prevAngleRef := cur, angle := cur\<rparr>"
      unfolding d if_cancel ..
    finally show "loop ts st =
          st\<lparr>prevAngleRef := wrapDeg (baseAngleRef st + (ts / 1000 - b) * tempo st),
             angle := wrapDeg (baseAngleRef st + (ts / 1000 - b) * tempo st)\<rparr>"
      unfolding cur_def .
  qed
  show ?thesis
    by (intro conjI 1 2 3 4 5)
qed

theorem trigger_skipped_without_voice_witness:
  "synthsRef (init\<lparr>running := True, builtRef := True, baseTimeRef := Some 0\<rparr>) (key (PLANETS ! 1)) = None
   \<and> triggerPlanet (PLANETS ! 1) 1 (init\<lparr>running := True, builtRef := True, baseTimeRef := Some 0\<rparr>)
       = init\<lparr>running := True, builtRef := True, baseTimeRef := Some 0\<rparr>
   \<and> crossed 0 90 (deg (PLANETS ! 1))
   \<and> loop 250 (init\<lparr>running := True, builtRef := True, baseTimeRef := Some 0\<rparr>)
       = (init\<lparr>running := True, builtRef := True, baseTimeRef := Some 0\<rparr>)
           \<lparr>prevAngleRef := 90, angle := 90\<rparr>
   \<and> triggerPlanet (PLANETS ! 1) 1
         (init\<lparr>synthsRef := [''Moon'' \<mapsto> \<lparr>current = Some ''pad'', nodes = Map.empty\<rparr>]\<rparr>)
       = init\<lparr>synthsRef := [''Moon'' \<mapsto> \<lparr>current = Some ''pad'', nodes = Map.empty\<rparr>]\<rparr>
   \<and> triggerPlanet (PLANETS ! 1) 1
         (init\<lparr>synthsRef := [''Moon'' \<mapsto> \<lparr>current = None, nodes = [''pad'' \<mapsto> Synth]\<rparr>]\<rparr>)
       = init\<lparr>synthsRef := [''Moon'' \<mapsto> \<lparr>current = None, nodes = [''pad'' \<mapsto> Synth]\<rparr>]\<rparr>"
proof -
  define w where "w = init\<lparr>running := True, builtRef := True, baseTimeRef := Some 0\<rparr>"
  define moon where "moon = PLANETS ! 1"
  have moon: "key moon = ''Moon''" "deg moon = 52.1"
    by (simp_all add: moon_def PLANETS_def)
  have w: "synthsRef w = Map.empty" "baseTimeRef w = Some 0" "baseAngleRef w = 0"
    "prevAngleRef w = 0" "tempo w = 360"
    by (simp_all add: w_def init_def tempo_def)
  have w90: "wrapDeg 90 = 90" by (rule wrapDeg_id) simp_all
  have cur: "wrapDeg (baseAngleRef w + (250 / 1000 - 0) * tempo w) = 90"
    using w90 by (simp add: w)
  have v: "\<forall>q \<in> set PLANETS.
      crossed (prevAngleRef w) (wrapDeg (baseAngleRef w + (250 / 1000 - 0) * tempo w)) (deg q)
        \<longrightarrow> voiceless w q"
    by (simp add: voiceless_def w)
  have a: "synthsRef w (key moon) = None"
    by (simp add: w)
  have w0: "wrapDeg 0 = 0" by (rule wrapDeg_id) simp_all
  have w52: "wrapDeg 52.1 = 52.1" by (rule wrapDeg_id) simp_all
  have c: "crossed 0 90 (deg moon)"
    by (simp add: crossed_normal moon w0 w90 w52)
  have t1: "triggerPlanet moon 1 w = w"
    using trigger_skipped_without_voice [where st = w and p = moon and idx = 1] a by blast
  have "loop 250 w =
      w\<lparr>prevAngleRef := wrapDeg (baseAngleRef w + (250 / 1000 - 0) * tempo w),
        angle := wrapDeg (baseAngleRef w + (250 / 1000 - 0) * tempo w)\<rparr>"
    using trigger_skipped_without_voice [where st = w and b = 0 and ts = 250] w(2) v by blast
  then have l: "loop 250 w = w\<lparr>prevAngleRef := 90, angle := 90\<rparr>"
    unfolding cur .
  define sl2 where "sl2 = \<lparr>current = Some ''pad'', nodes = (Map.empty :: string \<rightharpoonup> synth)\<rparr>"
  define w2 where "w2 = init\<lparr>synthsRef := [''Moon'' \<mapsto> sl2]\<rparr>"
  have "synthsRef w2 (key moon) = Some sl2 \<and> current sl2 = Some ''pad'' \<and> nodes sl2 ''pad'' = None"
    by (simp add: w2_def sl2_def moon)
  then have t2: "triggerPlanet moon 1 w2 = w2"
    using trigger_skipped_without_voice
      [where st = w2 and p = moon and idx = 1 and sl = sl2 and c = "''pad''"] by blast
  define sl3 where "sl3 = \<lparr>current = None, nodes = [''pad'' \<mapsto> Synth]\<rparr>"
  define w3 where "w3 = init\<lparr>synthsRef := [''Moon'' \<mapsto> sl3]\<rparr>"
  have "synthsRef w3 (key moon) = Some sl3 \<and> current sl3 = None"
    by (simp add: w3_def sl3_def moon)
  then have t3: "triggerPlanet moon 1 w3 = w3"
    using trigger_skipped_without_voice [where st = w3 and p = moon and idx = 1 and sl = sl3]
    by blast
  show ?thesis
    unfolding w_def [symmetric] moon_def [symmetric] sl2_def [symmetric] w2_def [symmetric]
      sl3_def [symmetric] w3_def [symmetric]
    by (intro conjI a t1 c l t2 t3)
qed

subsection \<open>The dispatcher\<close>

lemma forEach_fold:
  "forEach f xs i s = fold (\<lambda>(x, j). f x j) (zip xs [i ..< i + length xs]) s"
proof (induction xs arbitrary: i s)
  case Nil
  show ?case by simp
next
  case (Cons x xs)
  have "[i ..< i + length (x # xs)] = i # [Suc i ..< i + length (x # xs)]"
    by (rule upt_conv_Cons) simp
  then have "[i ..< i + length (x # xs)] = i # [Suc i ..< Suc i + length xs]"
    by simp
  then show ?case
    using Cons.IH [of "Suc i" "f x i s"] by simp
qed

lemma fold_filter_cond:
  "fold (\<lambda>(x, j) s. if P x then trig x j s else s) xs s
     = fold (\<lambda>(x, j). trig x j) (filter (\<lambda>(x, j). P x) xs) s"
  by (induction xs arbitrary: s) (simp_all add: case_prod_beta)

lemma dispatch_crossings:
  "dispatch trig ps prev cur s = fold (\<lambda>(p, idx). trig p idx) (crossings ps prev cur) s"
proof -
  have "dispatch trig ps prev cur s
      = fold (\<lambda>(p, idx) s. if crossed prev cur (deg p) then trig p idx s else s)
          (zip ps [0 ..< length ps]) s"
    unfolding dispatch_def forEach_fold by simp
  then show ?thesis
    unfolding crossings_def fold_filter_cond .
qed

lemma fold_log_trigger: "fold (\<lambda>(p, idx). log_trigger p idx) xs acc = acc @ xs"
  by (induction xs arbitrary: acc) (simp_all add: log_trigger_def case_prod_beta)

lemma count_list_distinct: "distinct xs \<Longrightarrow> count_list xs x = (if x \<in> set xs then 1 else 0)"
  by (induction xs) auto

lemma crossings_distinct: "distinct (crossings ps prev cur)"
proof -
  have "distinct (zip ps [0 ..< length ps])"
    by (rule distinct_zipI2) simp
  then show ?thesis
    unfolding crossings_def by (rule distinct_filter)
qed

lemma crossings_member:
  "(p, idx) \<in> set (crossings ps prev cur)
     \<longleftrightarrow> idx < length ps \<and> ps ! idx = p \<and> crossed prev cur (deg p)"
  unfolding crossings_def by (auto simp: in_set_zip)

lemma loop_built:
  assumes "builtRef st"
  shows "loop ts st =
     (let base = (case baseTimeRef st of None \<Rightarrow> ts / 1000 | Some b \<Rightarrow> b);
          cur = wrapDeg (baseAngleRef st + (ts / 1000 - base) * tempo st)
      in (fold (\<lambda>(p, idx). triggerPlanet p idx) (crossings PLANETS (prevAngleRef st) cur)
            (st\<lparr>baseTimeRef := Some base\<rparr>))\<lparr>prevAngleRef := cur, angle := cur\<rparr>)"
proof -
  define base where "base = (case baseTimeRef st of None \<Rightarrow> ts / 1000 | Some b \<Rightarrow> b)"
  define st1 where "st1 = st\<lparr>baseTimeRef := Some base\<rparr>"
  define cur where "cur = wrapDeg (baseAngleRef st + (ts / 1000 - base) * tempo st)"
  have t: "tempo st1 = tempo st" "baseAngleRef st1 = baseAngleRef st"
    "prevAngleRef st1 = prevAngleRef st" "builtRef st1"
    using assms by (simp_all add: st1_def tempo_def)
  have "loop ts st =
    (if builtRef st1 then dispatch triggerPlanet PLANETS (prevAngleRef st1) cur st1 else st1)
      \<lparr>prevAngleRef := cur, angle := cur\<rparr>"
    unfolding loop_def Let_def base_def [symmetric] st1_def [symmetric] t(1,2) cur_def [symmetric] ..
  also have "\<dots> = (dispatch triggerPlanet PLANETS (prevAngleRef st) cur st1)
      \<lparr>prevAngleRef := cur, angle := cur\<rparr>"
    unfolding t(3) using t(4) by (simp only: if_True)
  finally show ?thesis
    unfolding Let_def base_def [symmetric] cur_def [symmetric] st1_def [symmetric]
      dispatch_crossings .
qed

text \<open>
  Claim C6. The dispatcher runs the trigger on the crossed bodies of the chart, each with
  its index, in the order of the chart, and on nothing else: a trigger that records its
  invocations records exactly the list of crossed bodies, so a pair of body and index
  is recorded once when the body at that index is crossed and never otherwise. A frame
  on a built audio graph dispatches on \<open>PLANETS\<close> with \<open>triggerPlanet\<close> in this way,
  between the previous angle and the angle it computes. Two bodies at the same angle are
  both triggered, once each, by a step that crosses that angle.
\<close>

theorem dispatch_triggers_each_crossed_once:
  "dispatch trig ps prev cur s = fold (\<lambda>(p, idx). trig p idx) (crossings ps prev cur) s
   \<and> dispatch log_trigger ps prev cur [] = crossings ps prev cur
   \<and> count_list (dispatch log_trigger ps prev cur []) (p, idx) =
       (if idx < length ps \<and> ps ! idx = p \<and> crossed prev cur (deg p) then 1 else 0)
   \<and> (builtRef st \<longrightarrow>
        loop ts st =
          (let base = (case baseTimeRef st of None \<Rightarrow> ts / 1000 | Some b \<Rightarrow> b);
               cur = wrapDeg (baseAngleRef st + (ts / 1000 - base) * tempo st)
           in (fold (\<lambda>(p, idx). triggerPlanet p idx) (crossings PLANETS (prevAngleRef st) cur)
                 (st\<lparr>baseTimeRef := Some base\<rparr>))\<lparr>prevAngleRef := cur, angle := cur\<rparr>))
   \<and> (deg a = deg b \<and> crossed prev cur (deg a) \<longrightarrow>
        dispatch log_trigger [a, b] prev cur [] = [(a, 0), (b, 1)])"
proof -
  have l: "dispatch log_trigger qs prev cur [] = crossings qs prev cur" for qs
    unfolding dispatch_crossings fold_log_trigger by simp
  have c: "count_list (dispatch log_trigger ps prev cur []) (p, idx) =
       (if idx < length ps \<and> ps ! idx = p \<and> crossed prev cur (deg p) then 1 else 0)"
    unfolding l count_list_distinct [OF crossings_distinct] crossings_member ..
  have two: "deg a = deg b \<and> crossed prev cur (deg a) \<longrightarrow>
        dispatch log_trigger [a, b] prev cur [] = [(a, 0), (b, 1)]"
    unfolding l by (simp add: crossings_def)
  have b: "builtRef st \<longrightarrow>
        loop ts st =
          (let base = (case baseTimeRef st of None \<Rightarrow> ts / 1000 | Some b \<Rightarrow> b);
               cur = wrapDeg (baseAngleRef st + (ts / 1000 - base) * tempo st)
           in (fold (\<lambda>(p, idx). triggerPlanet p idx) (crossings PLANETS (prevAngleRef st) cur)
                 (st\<lparr>baseTimeRef := Some base\<rparr>))\<lparr>prevAngleRef := cur, angle := cur\<rparr>)"
    using loop_built [of st ts] by blast
  show ?thesis
    by (intro conjI dispatch_crossings l c b two)
qed

lemma trigger_voice:
  assumes "synthsRef st (key p) = Some sl" "slot_node sl = Some (c, n)"
  shows "scheduled (triggerPlanet p idx st) =
      scheduled st @ map (\<lambda>(m, as). NodeCall (key p) c m as) (voice_calls c idx)"
    and "synthsRef (triggerPlanet p idx st) = synthsRef st"
  using assms by (simp_all add: triggerPlanet_def)

lemma upt_14: "[0 ..< 14] = [0, 1, 2, 3, 4, 5, 6, 7, 8, 9, 10, 11, 12, 13 :: nat]"
  by code_simp

lemma crossings_quarter_turn:
  "crossings PLANETS 0 90 = [(PLANETS ! 1, 1), (PLANETS ! 13, 13)]"
proof -
  have w: "wrapDeg 0 = 0" "wrapDeg 90 = 90"
    by (simp_all add: wrapDeg_id)
  show ?thesis
    unfolding crossings_def crossed_normal w
    by (simp add: PLANETS_def upt_14 wrapDeg_id)
qed

lemma pick_examples: "pick 5 = ''G4''" "pick (js_rem_int 39 15) = ''E5''"
  by (simp_all add: pick_def js_rem_int_def SCALE_def)

lemma loop_graph: "synthsRef (loop ts st) = synthsRef st"
  using loop_frame [of ts st] by auto

lemma play_graph:
  assumes "\<not> running st" "\<not> builtRef st"
  shows "synthsRef (handlePlayPause T st) k =
     (if k \<in> key ` set PLANETS
      then Some \<lparr>current = instrumentMap st k,
                 nodes = fold (\<lambda>(k, l) m. m(k \<mapsto> makeSynth k)) SOUND_LIBRARY Map.empty\<rparr>
      else None)"
  using assms buildGraph_synths [of st T st k] by (simp add: handlePlayPause_def Let_def)

theorem dispatch_triggers_each_crossed_once_witness:
  "deg \<lparr>key = ''A'', deg = 90, instrument = ''lead''\<rparr> = deg \<lparr>key = ''B'', deg = 90, instrument = ''pad''\<rparr>
   \<and> crossed 80 100 (deg \<lparr>key = ''A'', deg = 90, instrument = ''lead''\<rparr>)
   \<and> dispatch log_trigger
         [\<lparr>key = ''A'', deg = 90, instrument = ''lead''\<rparr>, \<lparr>key = ''B'', deg = 90, instrument = ''pad''\<rparr>]
         80 100 []
       = [(\<lparr>key = ''A'', deg = 90, instrument = ''lead''\<rparr>, 0),
          (\<lparr>key = ''B'', deg = 90, instrument = ''pad''\<rparr>, 1)]
   \<and> builtRef (run tone_full [PlayPause, Frame 0] init)
   \<and> scheduled (run tone_full [PlayPause, Frame 0] init) = [UnlockBeep]
   \<and> scheduled (run tone_full [PlayPause, Frame 0, Frame 250] init) =
       [UnlockBeep,
        NodeCall ''Moon'' ''pad'' ''triggerAttackRelease'' [''G4'', ''4n'', ''t''],
        NodeCall ''MC'' ''lead'' ''triggerAttackRelease'' [''E5'', ''8n'', ''t'']]"
proof -
  define a where "a = \<lparr>key = ''A'', deg = 90, instrument = ''lead''\<rparr>"
  define b where "b = \<lparr>key = ''B'', deg = 90, instrument = ''pad''\<rparr>"
  have w: "wrapDeg 80 = 80" "wrapDeg 90 = 90" "wrapDeg 100 = 100" "wrapDeg 0 = 0"
    by (simp_all add: wrapDeg_id)
  have ab: "deg a = deg b \<and> crossed 80 100 (deg a)"
    by (simp add: a_def b_def crossed_normal w)
  have two: "dispatch log_trigger [a, b] 80 100 [] = [(a, 0), (b, 1)]"
    by (rule dispatch_triggers_each_crossed_once
        [THEN conjunct2, THEN conjunct2, THEN conjunct2, THEN conjunct2, THEN mp]) (rule ab)
  define p where "p = handlePlayPause tone_full init"
  have i: "\<not> running init" "\<not> builtRef init" "baseAngleRef init = 0" "bpm init = 60"
    "scheduled init = []"
    by (simp_all add: init_def)
  have p: "running p" "baseTimeRef p = None" "baseAngleRef p = 0" "prevAngleRef p = 0"
    "bpm p = 60" "builtRef p" "scheduled p = [UnlockBeep]"
    unfolding p_def using i by (simp_all add: play_clock)
  define st where "st = loop 0 p"
  have st: "running st" "baseTimeRef st = Some 0" "baseAngleRef st = 0" "prevAngleRef st = 0"
    "tempo st = 360" "builtRef st"
    unfolding st_def using p w by (simp_all add: loop_clock tempo_def)
  have sch: "scheduled st = [UnlockBeep]"
    unfolding st_def using loop_still [of p 0] p w by simp
  have graph: "synthsRef st k =
     (if k \<in> key ` set PLANETS
      then Some \<lparr>current = instrumentMap init k,
                 nodes = fold (\<lambda>(k, l) m. m(k \<mapsto> makeSynth k)) SOUND_LIBRARY Map.empty\<rparr>
      else None)" for k
    unfolding st_def p_def loop_graph using i(1,2) by (rule play_graph)
  have r0: "run tone_full [PlayPause, Frame 0] init = st"
    unfolding st_def using p(1) by (simp add: step_def p_def [symmetric])
  have r1: "run tone_full [PlayPause, Frame 0, Frame 250] init = loop 250 st"
    using p(1) st(1) [unfolded st_def]
    by (simp add: step_def p_def [symmetric] st_def [symmetric])
  define st1 where "st1 = st\<lparr>baseTimeRef := Some 0\<rparr>"
  have cur: "wrapDeg (baseAngleRef st + (250 / 1000 - 0) * tempo st) = 90"
    using w by (simp add: st)
  have "loop 250 st =
      (fold (\<lambda>(p, idx). triggerPlanet p idx) (crossings PLANETS 0 90) st1)
        \<lparr>prevAngleRef := 90, angle := 90\<rparr>"
    using dispatch_triggers_each_crossed_once [where st = st and ts = 250,
        THEN conjunct2, THEN conjunct2, THEN conjunct2, THEN conjunct1, THEN mp, OF st(6)]
    unfolding Let_def st(2) option.case cur st(4) st1_def .
  then have fr: "scheduled (loop 250 st) =
      scheduled (triggerPlanet (PLANETS ! 13) 13 (triggerPlanet (PLANETS ! 1) 1 st1))"
    unfolding crossings_quarter_turn by simp
  define N where "N = fold (\<lambda>(k, l) m. m(k \<mapsto> makeSynth k)) SOUND_LIBRARY Map.empty"
  have N: "N ''pad'' = Some Synth" "N ''lead'' = Some Synth"
    unfolding N_def by (simp_all add: SOUND_LIBRARY_def makeSynth_def)
  have im: "instrumentMap init ''Moon'' = Some ''pad''" "instrumentMap init ''MC'' = Some ''lead''"
    by (simp_all add: init_def fromEntries_def PLANETS_def)
  define moon where "moon = PLANETS ! 1"
  define mc where "mc = PLANETS ! 13"
  have pl: "key moon = ''Moon''" "key mc = ''MC''"
    by (simp_all add: moon_def mc_def PLANETS_def)
  have km: "''Moon'' \<in> key ` set PLANETS" "''MC'' \<in> key ` set PLANETS"
    by (simp_all add: PLANETS_def)
  have g1: "synthsRef st1 (key moon) = Some \<lparr>current = Some ''pad'', nodes = N\<rparr>"
    "synthsRef st1 (key mc) = Some \<lparr>current = Some ''lead'', nodes = N\<rparr>"
    unfolding st1_def N_def pl using km im by (simp_all add: graph)
  have sn: "slot_node \<lparr>current = Some ''pad'', nodes = N\<rparr> = Some (''pad'', Synth)"
    "slot_node \<lparr>current = Some ''lead'', nodes = N\<rparr> = Some (''lead'', Synth)"
    by (simp_all add: slot_node_def N)
  have s1: "scheduled st1 = [UnlockBeep]"
    by (simp add: st1_def sch)
  have vc: "voice_calls ''pad'' 1 = [(''triggerAttackRelease'', [''G4'', ''4n'', ''t''])]"
    "voice_calls ''lead'' 13 = [(''triggerAttackRelease'', [''E5'', ''8n'', ''t''])]"
    by (simp_all add: voice_calls_def Let_def pick_examples SCALE_def)
  define st2 where "st2 = triggerPlanet moon 1 st1"
  have t1: "scheduled st2 =
      [UnlockBeep, NodeCall ''Moon'' ''pad'' ''triggerAttackRelease'' [''G4'', ''4n'', ''t'']]"
    unfolding st2_def trigger_voice(1) [OF g1(1) sn(1)] vc pl s1 by simp
  have g2: "synthsRef st2 (key mc) = Some \<lparr>current = Some ''lead'', nodes = N\<rparr>"
    unfolding st2_def trigger_voice(2) [OF g1(1) sn(1)] by (rule g1(2))
  have t2: "scheduled (triggerPlanet mc 13 st2) =
      [UnlockBeep, NodeCall ''Moon'' ''pad'' ''triggerAttackRelease'' [''G4'', ''4n'', ''t''],
       NodeCall ''MC'' ''lead'' ''triggerAttackRelease'' [''E5'', ''8n'', ''t'']]"
    unfolding trigger_voice(1) [OF g2 sn(2)] vc pl t1 by simp
  show ?thesis
    unfolding a_def [symmetric] b_def [symmetric] r0 r1 fr moon_def [symmetric] mc_def [symmetric]
      st2_def [symmetric] t2
    by (intro conjI ab [THEN conjunct1] ab [THEN conjunct2] two st(6) sch refl)
qed

subsection \<open>Normalisation of angles in double precision\<close>




















end
